theory Spec2Isabelle
  imports Complex_Main
begin

section \<open>Common data: tensors, errors, torch primitives\<close>

text \<open>
  The program is a PyTorch model. Tensors of rank one are modelled as lists of reals
  (\<open>vec\<close>), tensors of rank two as lists of rows. Floating point is idealised to
  the reals. Exceptions raised by Python or torch are values of \<open>error\<close>; a
  function that can raise returns \<open>error + 'a\<close> with \<open>Inl\<close> the exception.
\<close>

type_synonym vec = "real list"

datatype error = IndexError | KeyError | RuntimeError | AttributeError | TypeError

definition bindE :: "error + 'a \<Rightarrow> ('a \<Rightarrow> error + 'b) \<Rightarrow> error + 'b" where
  "bindE m f = (case m of Inl e \<Rightarrow> Inl e | Inr x \<Rightarrow> f x)"

text \<open>Elementwise addition of two rows (\<open>+\<close> on tensors of one shape).\<close>

definition vadd :: "vec \<Rightarrow> vec \<Rightarrow> vec" where
  "vadd a b = map2 (+) a b"

section \<open>layers.py: segment\_sum\<close>

text \<open>
  \<^verbatim>\<open>unique_segment_ids = torch.unique(segment_ids)\<close>: the sorted distinct values.
\<close>

definition unique :: "nat list \<Rightarrow> nat list" where
  "unique xs = sort (remdups xs)"

text \<open>
  \<^verbatim>\<open>res.index_add(0, index, source)\<close>: row \<open>source[i]\<close> is added into row
  \<open>index[i]\<close> of \<open>res\<close>, for \<open>i\<close> in order. torch refuses an index vector whose
  length is not the number of source rows, and an index outside the rows of \<open>res\<close>.
\<close>

fun index_add_rows :: "vec list \<Rightarrow> nat list \<Rightarrow> vec list \<Rightarrow> error + vec list" where
  "index_add_rows res [] source = Inr res"
| "index_add_rows res (i # idx) [] = Inl RuntimeError"
| "index_add_rows res (i # idx) (x # source) =
     (if i < length res then index_add_rows (res[i := vadd (res ! i) x]) idx source
      else Inl IndexError)"

definition index_add :: "vec list \<Rightarrow> nat list \<Rightarrow> vec list \<Rightarrow> error + vec list" where
  "index_add res idx source =
     (if length idx \<noteq> length source then Inl RuntimeError
      else index_add_rows res idx source)"

text \<open>
  \<^verbatim>\<open>segment_sum(data, segment_ids)\<close>. \<open>data\<close> has shape \<open>(1, n, d)\<close>; the model takes
  its \<open>n\<close> rows and the row width \<open>d = data.shape[-1]\<close>. The result has shape
  \<open>(1, k, d)\<close>; the model returns its \<open>k\<close> rows. The closing
  \<^verbatim>\<open>view(1, -1, d)\<close> cannot infer the middle dimension when \<open>d = 0\<close>.
\<close>

definition segment_sum :: "nat \<Rightarrow> vec list \<Rightarrow> nat list \<Rightarrow> error + vec list" where
  "segment_sum d data segment_ids =
     (let unique_segment_ids = unique segment_ids;
          res = replicate (length unique_segment_ids) (replicate d 0)
      in bindE (index_add res segment_ids data)
           (\<lambda>r. if d = 0 then Inl RuntimeError else Inr r))"

text \<open>The sum of the rows of \<open>data\<close> whose label is \<open>j\<close>, added in order onto zeros.\<close>

definition rows_of :: "nat \<Rightarrow> nat list \<Rightarrow> vec list \<Rightarrow> vec list" where
  "rows_of j idx source = map snd (filter (\<lambda>p. fst p = j) (zip idx source))"

definition segment_total :: "nat \<Rightarrow> nat \<Rightarrow> nat list \<Rightarrow> vec list \<Rightarrow> vec" where
  "segment_total d j idx source = foldl vadd (replicate d 0) (rows_of j idx source)"

section \<open>layers.py: DecoderRNN\<close>

definition relu :: "vec \<Rightarrow> vec" where
  "relu v = map (max 0) v"

definition topk :: "nat \<Rightarrow> vec \<Rightarrow> error + (nat \<times> real) list" where
  "topk k xs =
     (if length xs < k then Inl RuntimeError
      else Inr (take k (sort_key (\<lambda>p. - snd p) (enumerate 0 xs))))"

definition inverse_vocab :: "(string \<times> nat) list \<Rightarrow> nat \<rightharpoonup> string" where
  "inverse_vocab vocab = map_of (rev (map (\<lambda>(k, v). (v, k)) vocab))"

record DecoderRNN =
  hidden_size :: nat
  layer_size :: nat
  vocab :: "(string \<times> nat) list"
  index2token :: "nat \<rightharpoonup> string"
  vocab_size :: nat
  W :: "vec \<Rightarrow> vec"
  embedding :: "nat \<Rightarrow> vec"
  gru :: "vec \<Rightarrow> vec list \<Rightarrow> vec \<times> vec list"
  classifier :: "vec \<Rightarrow> vec"
  softmax :: "vec \<Rightarrow> vec"

definition DecoderRNN_init ::
  "nat \<Rightarrow> (string \<times> nat) list \<Rightarrow> nat \<Rightarrow> (vec \<Rightarrow> vec) \<Rightarrow> (nat \<Rightarrow> vec)
     \<Rightarrow> (vec \<Rightarrow> vec list \<Rightarrow> vec \<times> vec list) \<Rightarrow> (vec \<Rightarrow> vec) \<Rightarrow> (vec \<Rightarrow> vec) \<Rightarrow> DecoderRNN" where
  "DecoderRNN_init hsize voc lsize w emb g cls sm =
     \<lparr>hidden_size = hsize, layer_size = lsize, vocab = voc,
      index2token = inverse_vocab voc, vocab_size = length voc,
      W = w, embedding = emb, gru = g, classifier = cls, softmax = sm\<rparr>"

definition init_hidden :: "DecoderRNN \<Rightarrow> vec \<Rightarrow> vec \<Rightarrow> vec option \<Rightarrow> vec list" where
  "init_hidden D word_embedding context_vector transformer_context =
     (let context_vector = relu (W D context_vector)
      in case transformer_context of
           Some tc \<Rightarrow> [relu tc, context_vector, word_embedding]
         | None \<Rightarrow> [context_vector, word_embedding])"

fun predict_loop ::
  "DecoderRNN \<Rightarrow> nat \<Rightarrow> nat \<Rightarrow> nat \<Rightarrow> vec list \<Rightarrow> vec list \<Rightarrow> string list
     \<Rightarrow> error + (vec list \<times> string list)" where
  "predict_loop D 0 di predicted_token hid scores predictions = Inr (scores, predictions)"
| "predict_loop D (Suc n) di predicted_token hid scores predictions =
     (let embedded = embedding D predicted_token;
          (output, hid) = gru D embedded hid;
          output = classifier D output;
          scores = scores[di := output]
      in case topk 1 output of
           Inl e \<Rightarrow> Inl e
         | Inr tops \<Rightarrow>
             (let predicted_token = fst (hd tops)
              in if predicted_token = 1 then Inr (scores, predictions)
                 else if predicted_token > 2 then
                   (case index2token D predicted_token of
                      None \<Rightarrow> Inl KeyError
                    | Some tok \<Rightarrow>
                        predict_loop D n (Suc di) predicted_token hid scores (predictions @ [tok]))
                 else predict_loop D n (Suc di) predicted_token hid scores predictions))"

definition predict ::
  "DecoderRNN \<Rightarrow> vec \<Rightarrow> vec \<Rightarrow> vec option \<Rightarrow> nat \<Rightarrow> error + (vec list \<times> string list)" where
  "predict D word_embedding context_vector transformer_context max_len =
     (let hid = init_hidden D word_embedding context_vector transformer_context;
          scores = replicate max_len (replicate (vocab_size D) 0)
      in predict_loop D max_len 0 2 hid scores [])"

record State =
  prediction :: string
  score :: real
  normalized_score :: real
  last_output :: nat
  hidden :: "vec list"

definition new_state ::
  "DecoderRNN \<Rightarrow> int \<Rightarrow> State \<Rightarrow> vec list \<Rightarrow> nat \<Rightarrow> real \<Rightarrow> error + State" where
  "new_state D surface_len state hid ix p =
     (let sc = score state * p
      in if ix = 1 then
           (let pred = prediction state;
                prediction_len = real (length pred) + 1;
                nsc = (sc / ((5 + prediction_len) / 6)) * (real_of_int surface_len / prediction_len)
            in Inr \<lparr>prediction = pred, score = sc, normalized_score = nsc,
                     last_output = ix, hidden = hid\<rparr>)
         else
           (case index2token D ix of
              None \<Rightarrow> Inl KeyError
            | Some tok \<Rightarrow>
                (let pred = prediction state @ tok;
                     nsc = sc / ((5 + real (length pred)) / 6)
                 in Inr \<lparr>prediction = pred, score = sc, normalized_score = nsc,
                          last_output = ix, hidden = hid\<rparr>)))"

fun expand_children ::
  "DecoderRNN \<Rightarrow> int \<Rightarrow> State \<Rightarrow> vec list \<Rightarrow> (nat \<times> real) list \<Rightarrow> State list \<times> State list
     \<Rightarrow> error + (State list \<times> State list)" where
  "expand_children D surface_len state hid [] acc = Inr acc"
| "expand_children D surface_len state hid ((ix, p) # rest) (new_states, completed_states) =
     (case new_state D surface_len state hid ix p of
        Inl e \<Rightarrow> Inl e
      | Inr c \<Rightarrow>
          if ix = 1
          then expand_children D surface_len state hid rest (new_states, completed_states @ [c])
          else expand_children D surface_len state hid rest (new_states @ [c], completed_states))"

fun expand_states ::
  "DecoderRNN \<Rightarrow> int \<Rightarrow> nat \<Rightarrow> State list \<Rightarrow> State list \<times> State list
     \<Rightarrow> error + (State list \<times> State list)" where
  "expand_states D surface_len beam_size [] acc = Inr acc"
| "expand_states D surface_len beam_size (state # states) acc =
     (if int (length (prediction state)) \<ge> surface_len + 2
      then expand_states D surface_len beam_size states acc
      else
        (let embedded = embedding D (last_output state);
             (gru_outputs, hid) = gru D embedded (hidden state);
             scores = softmax D (classifier D gru_outputs)
         in case topk beam_size scores of
              Inl e \<Rightarrow> Inl e
            | Inr tops \<Rightarrow>
                (case expand_children D surface_len state hid tops acc of
                   Inl e \<Rightarrow> Inl e
                 | Inr acc' \<Rightarrow> expand_states D surface_len beam_size states acc')))"

definition best_first :: "State list \<Rightarrow> State list" where
  "best_first states = sort_key (\<lambda>s. - normalized_score s) states"

partial_function (option) beam_loop ::
  "DecoderRNN \<Rightarrow> int \<Rightarrow> nat \<Rightarrow> State list \<Rightarrow> State list \<Rightarrow> (error + State list) option" where
  "beam_loop D surface_len beam_size states completed_states =
     (if states = [] then Some (Inr completed_states)
      else
        (case expand_states D surface_len beam_size states ([], completed_states) of
           Inl e \<Rightarrow> Some (Inl e)
         | Inr (new_states, completed_states') \<Rightarrow>
             beam_loop D surface_len beam_size
               (take beam_size (best_first new_states)) completed_states'))"

definition initial_state :: "DecoderRNN \<Rightarrow> vec \<Rightarrow> vec \<Rightarrow> vec option \<Rightarrow> State" where
  "initial_state D word_embedding context_vector transformer_context =
     \<lparr>prediction = '''', score = 1, normalized_score = 1, last_output = 2,
      hidden = init_hidden D word_embedding context_vector transformer_context\<rparr>"

definition beam_search ::
  "DecoderRNN \<Rightarrow> vec \<Rightarrow> vec \<Rightarrow> int \<Rightarrow> vec option \<Rightarrow> nat \<Rightarrow> (error + State list) option" where
  "beam_search D word_embedding context_vector surface_len transformer_context beam_size =
     beam_loop D surface_len beam_size
       [initial_state D word_embedding context_vector transformer_context] []"

definition predict_beam ::
  "DecoderRNN \<Rightarrow> vec \<Rightarrow> vec \<Rightarrow> int \<Rightarrow> vec option \<Rightarrow> nat \<Rightarrow> (error + string) option" where
  "predict_beam D word_embedding context_vector surface_len transformer_context beam_size =
     (case beam_search D word_embedding context_vector surface_len transformer_context beam_size of
        None \<Rightarrow> None
      | Some (Inl e) \<Rightarrow> Some (Inl e)
      | Some (Inr completed_states) \<Rightarrow>
          (case best_first completed_states of
             [] \<Rightarrow> Some (Inl IndexError)
           | best # _ \<Rightarrow> Some (Inr (prediction best))))"

fun greedy_tokens :: "DecoderRNN \<Rightarrow> nat \<Rightarrow> nat \<Rightarrow> vec list \<Rightarrow> nat list" where
  "greedy_tokens D 0 tok hid = []"
| "greedy_tokens D (Suc n) tok hid =
     (let (output, hid') = gru D (embedding D tok) hid
      in case topk 1 (classifier D output) of
           Inl e \<Rightarrow> []
         | Inr tops \<Rightarrow> fst (hd tops) # greedy_tokens D n (fst (hd tops)) hid')"


text \<open>
  The softmax distribution over the vocabulary that one recurrence step gives after a
  candidate (lines 293 to 296 of layers.py), and the recurrent state it leaves.
\<close>

definition next_probs :: "DecoderRNN \<Rightarrow> State \<Rightarrow> vec" where
  "next_probs D state =
     softmax D (classifier D (fst (gru D (embedding D (last_output state)) (hidden state))))"

definition next_hidden :: "DecoderRNN \<Rightarrow> State \<Rightarrow> vec list" where
  "next_hidden D state = snd (gru D (embedding D (last_output state)) (hidden state))"

definition order_preserving :: "(vec \<Rightarrow> vec) \<Rightarrow> bool" where
  "order_preserving sm =
     (\<forall>xs. length (sm xs) = length xs \<and>
        (\<forall>i < length xs. \<forall>j < length xs. (sm xs ! i \<le> sm xs ! j) = (xs ! i \<le> xs ! j)))"

section \<open>layers.py: DecoderFF\<close>

text \<open>
  The feed-forward tag decoder. Its field names carry the prefix \<open>ff_\<close> because the
  decoders share their field names in the source. \<^verbatim>\<open>torch.sigmoid\<close> is the logistic
  function on the reals.
\<close>

record DecoderFF =
  ff_hidden_size :: nat
  ff_vocab :: "(string \<times> nat) list"
  ff_index2token :: "nat \<rightharpoonup> string"
  ff_vocab_size :: nat
  ff_W :: "vec \<Rightarrow> vec"
  ff_classifier :: "vec \<Rightarrow> vec"

definition DecoderFF_init ::
  "nat \<Rightarrow> (string \<times> nat) list \<Rightarrow> (vec \<Rightarrow> vec) \<Rightarrow> (vec \<Rightarrow> vec) \<Rightarrow> DecoderFF" where
  "DecoderFF_init hsize voc w cls =
     \<lparr>ff_hidden_size = hsize, ff_vocab = voc, ff_index2token = inverse_vocab voc,
      ff_vocab_size = length voc, ff_W = w, ff_classifier = cls\<rparr>"

definition sigmoid :: "real \<Rightarrow> real" where
  "sigmoid x = 1 / (1 + exp (- x))"

text \<open>Lines 586 to 598: the sigmoid score of every entry of the tag vocabulary.\<close>

definition DecoderFF_scores :: "DecoderFF \<Rightarrow> vec \<Rightarrow> vec \<Rightarrow> vec option \<Rightarrow> vec" where
  "DecoderFF_scores F word_embedding context_vector transformer_context =
     (let context_vector = relu (ff_W F context_vector);
          hid = (case transformer_context of
                   Some tc \<Rightarrow> relu tc @ context_vector
                 | None \<Rightarrow> context_vector @ word_embedding);
          outputs = relu (ff_W F hid);
          outputs = ff_classifier F outputs
      in map sigmoid outputs)"

text \<open>Lines 602 to 605: the loop over \<^verbatim>\<open>enumerate(preds)\<close>, from index \<open>ix\<close> on.\<close>

fun collect_tags :: "DecoderFF \<Rightarrow> nat \<Rightarrow> bool list \<Rightarrow> string list \<Rightarrow> error + string list" where
  "collect_tags F ix [] predictions = Inr predictions"
| "collect_tags F ix (pred # preds) predictions =
     (if ix > 2 \<and> pred then
        (case ff_index2token F ix of
           None \<Rightarrow> Inl KeyError
         | Some tok \<Rightarrow> collect_tags F (Suc ix) preds (predictions @ [tok]))
      else collect_tags F (Suc ix) preds predictions)"

definition DecoderFF_predict ::
  "DecoderFF \<Rightarrow> vec \<Rightarrow> vec \<Rightarrow> vec option \<Rightarrow> error + string list" where
  "DecoderFF_predict F word_embedding context_vector transformer_context =
     (let scores = DecoderFF_scores F word_embedding context_vector transformer_context;
          preds = map (\<lambda>s. s > 1 / 2) scores
      in collect_tags F 0 preds [])"

section \<open>layers.py: TransformerRNN and EncoderRNN\<close>

text \<open>
  Python indexing \<open>xs[i]\<close> with a non-negative index, and a loop that collects one
  result per element and stops at the first exception.
\<close>

definition getitem :: "'a list \<Rightarrow> nat \<Rightarrow> error + 'a" where
  "getitem xs i = (if i < length xs then Inr (xs ! i) else Inl IndexError)"

fun mapE :: "('a \<Rightarrow> error + 'b) \<Rightarrow> 'a list \<Rightarrow> error + 'b list" where
  "mapE f [] = Inr []"
| "mapE f (x # xs) =
     (case f x of
        Inl e \<Rightarrow> Inl e
      | Inr y \<Rightarrow> (case mapE f xs of Inl e \<Rightarrow> Inl e | Inr ys \<Rightarrow> Inr (y # ys)))"

definition argmax :: "vec \<Rightarrow> error + nat" where
  "argmax v = bindE (topk 1 v) (\<lambda>tops. Inr (fst (hd tops)))"

text \<open>
  The transformation decoder. \<open>tr_gru\<close> is the bidirectional multi-layer GRU run on one
  word of the batch: from the embedded characters of the word and the word's initial
  state (one vector per layer and direction) it gives the output at a position. The
  words of a batch do not influence each other.
\<close>

record TransformerRNN =
  tr_hidden_size :: nat
  tr_vocab :: "(string \<times> nat) list"
  index2transformation :: "nat \<rightharpoonup> string"
  tr_vocab_size :: nat
  input_vocab_size :: nat
  tr_W :: "vec \<Rightarrow> vec"
  tr_embedding :: "nat \<Rightarrow> vec"
  tr_gru :: "vec list \<Rightarrow> vec list \<Rightarrow> nat \<Rightarrow> vec"
  tr_classifier :: "vec \<Rightarrow> vec"
  tr_dropout :: "vec \<Rightarrow> vec"
  tr_softmax :: "vec \<Rightarrow> vec"

text \<open>
  \<^verbatim>\<open>TransformerRNN.predict\<close>. \<^verbatim>\<open>torch.cat\<close> and the GRU refuse operands whose
  numbers of words differ. \<open>inverse_transformation\<close> is imported from a module that is
  not among the sources and is taken as a parameter.
\<close>

definition TransformerRNN_predict ::
  "(string \<Rightarrow> string list \<Rightarrow> string) \<Rightarrow> TransformerRNN \<Rightarrow> vec list \<Rightarrow> vec list
     \<Rightarrow> nat list list \<Rightarrow> string list \<Rightarrow> vec list option
     \<Rightarrow> error + (vec list list \<times> string list)" where
  "TransformerRNN_predict inverse_transformation T word_embeddings context_vectors x surfaces
     transformer_context =
     (let context_vectors = map (\<lambda>v. relu (tr_W T v)) context_vectors;
          n = length context_vectors
      in if length word_embeddings \<noteq> n
            \<or> (case transformer_context of Some tc \<Rightarrow> length tc \<noteq> n | None \<Rightarrow> False)
            \<or> length x \<noteq> n
         then Inl RuntimeError
         else
           (let hid = (case transformer_context of
                         Some tc \<Rightarrow>
                           [map relu tc, map relu tc, context_vectors, context_vectors,
                            word_embeddings, word_embeddings]
                       | None \<Rightarrow>
                           [context_vectors, context_vectors, word_embeddings, word_embeddings]);
                embeddings = map (map (\<lambda>c. tr_dropout T (tr_embedding T c))) x;
                outputs = map (\<lambda>w. map (tr_gru T (embeddings ! w) (map (\<lambda>layer. layer ! w) hid))
                                      [0..<length (embeddings ! w)]) [0..<n];
                outputs = map (map (\<lambda>v. tr_classifier T (tr_dropout T v))) outputs;
                scores = map (map (tr_softmax T)) outputs
            in bindE (mapE (mapE (\<lambda>v. bindE (argmax v)
                         (\<lambda>ix. case index2transformation T ix of
                                 None \<Rightarrow> Inl KeyError
                               | Some t \<Rightarrow> Inr t))) scores)
                 (\<lambda>predictions.
                    Inr (scores,
                         map (\<lambda>(surface, prediction).
                                inverse_transformation surface (take (length surface) prediction))
                             (zip surfaces predictions)))))"

text \<open>
  The encoder. \<open>char_gru\<close> gives the final state of the character GRU on one word from
  its embedded characters and the initial state; \<open>word_gru\<close> gives the output of the
  bidirectional word GRU at a position of the sentence; \<open>based_model\<close>, when present,
  gives the pretrained transformer's embedding of the subword at a position, and
  \<open>based_hidden_size\<close> is its width. Dropout is a fixed map on vectors (the identity in
  evaluation mode).
\<close>

record EncoderRNN =
  hidden_size1 :: nat
  hidden_size2 :: nat
  enc_embedding :: "nat \<Rightarrow> vec"
  char_gru :: "vec list \<Rightarrow> vec \<Rightarrow> vec"
  word_gru :: "vec list \<Rightarrow> vec list \<Rightarrow> nat \<Rightarrow> vec"
  enc_dropout :: "vec \<Rightarrow> vec"
  based_model :: "(nat list \<Rightarrow> nat \<Rightarrow> vec) option"
  based_hidden_size :: nat
  tuning_layer :: "vec \<Rightarrow> vec"

definition EncoderRNN_forward ::
  "EncoderRNN \<Rightarrow> nat list \<times> nat list \<Rightarrow> nat list list
     \<Rightarrow> error + (vec list option \<times> vec list \<times> vec list)" where
  "EncoderRNN_forward E x1 x2 =
     (let char_gru_hidden = replicate (hidden_size1 E) 0;
          word_gru_hidden = [replicate (hidden_size2 E) 0, replicate (hidden_size2 E) 0];
          char_embeddings = map (map (\<lambda>c. enc_dropout E (enc_embedding E c))) x2;
          word_embeddings = map (\<lambda>w. enc_dropout E (char_gru E w char_gru_hidden)) char_embeddings;
          context_embeddings =
            map (\<lambda>i. enc_dropout E (word_gru E word_embeddings word_gru_hidden i))
              [0..<length word_embeddings]
      in case based_model E of
           Some bm \<Rightarrow>
             (let (sub_tokens, word_ids) = x1;
                  pretrained = map (bm sub_tokens) [0..<length sub_tokens]
              in bindE (segment_sum (based_hidden_size E) pretrained word_ids)
                   (\<lambda>pooled. Inr (Some (map (tuning_layer E) pooled),
                                   word_embeddings, context_embeddings)))
         | None \<Rightarrow> Inr (None, word_embeddings, context_embeddings))"

section \<open>data\_loaders.py: ConllDataset.encode\<close>

definition PAD_token :: string where "PAD_token = ''<p>''"
definition EOS_token :: string where "EOS_token = ''<e>''"
definition START_TAG :: string where "START_TAG = ''<s>''"

text \<open>
  \<^verbatim>\<open>encode(seq, vocab, add_start_tag, add_end_tag)\<close> on a string: a character that is
  not in the vocabulary is skipped; a missing START or END entry is a KeyError.
\<close>

definition encode :: "string \<Rightarrow> (string \<rightharpoonup> nat) \<Rightarrow> bool \<Rightarrow> bool \<Rightarrow> error + nat list" where
  "encode seq voc add_start_tag add_end_tag =
     bindE (if add_start_tag
            then (case voc START_TAG of None \<Rightarrow> Inl KeyError | Some i \<Rightarrow> Inr [i])
            else Inr [])
       (\<lambda>res.
          let res = res @ concat (map (\<lambda>ch. case voc [ch] of None \<Rightarrow> [] | Some i \<Rightarrow> [i]) seq)
          in if add_end_tag
             then (case voc EOS_token of None \<Rightarrow> Inl KeyError | Some i \<Rightarrow> Inr (res @ [i]))
             else Inr res)"

record ConllDataset =
  surface_char2id :: "string \<rightharpoonup> nat"

section \<open>predict.py: predict\_sentence\<close>

text \<open>Decimal rendering of an index (\<^verbatim>\<open>"{}".format(i + 1)\<close>), and \<^verbatim>\<open>sep.join(xs)\<close>.\<close>

definition digit_char :: "nat \<Rightarrow> char" where
  "digit_char d = char_of (48 + d)"

fun str_nat :: "nat \<Rightarrow> string" where
  "str_nat n = (if n < 10 then [digit_char n] else str_nat (n div 10) @ [digit_char (n mod 10)])"

fun str_join :: "string \<Rightarrow> string list \<Rightarrow> string" where
  "str_join sep [] = []"
| "str_join sep [x] = x"
| "str_join sep (x # y # ys) = x @ sep @ str_join sep (y # ys)"

definition tab :: string where "tab = [CHR 0x09]"
definition newline :: string where "newline = [CHR 0x0A]"

text \<open>
  \<^verbatim>\<open>REMOVE_EOS_REGEX.sub('', surface)\<close> with the pattern \<^verbatim>\<open>\$$\<close>: a dollar sign at the
  end of the string, or just before a newline that ends the string, is removed.
\<close>

definition remove_eos :: "string \<Rightarrow> string" where
  "remove_eos surface =
     (case rev surface of
        c # r \<Rightarrow>
          if c = CHR ''$'' then rev r
          else (case r of
                  c' # r' \<Rightarrow> if c = CHR 0x0A \<and> c' = CHR ''$'' then rev r' @ [c] else surface
                | [] \<Rightarrow> surface)
      | [] \<Rightarrow> surface)"

text \<open>Lines 142 to 147: the comment line and one line per word.\<close>

definition conll_line :: "nat \<Rightarrow> string \<Rightarrow> string \<Rightarrow> string \<Rightarrow> string" where
  "conll_line i surface lem morph_feature =
     str_nat (i + 1) @ tab @ remove_eos surface @ tab @ lem @ tab @ ''_'' @ tab @ ''_'' @ tab
       @ morph_feature @ tab @ ''_'' @ tab @ ''_'' @ tab @ ''_'' @ tab @ ''_'' @ newline"

definition conll_sentence :: "string list \<Rightarrow> string list \<Rightarrow> string list \<Rightarrow> string" where
  "conll_sentence surface_words lemmas morph_features =
     (''# Sentence'' @ newline)
       @ concat (map (\<lambda>(i, surface, lem, morph_feature). conll_line i surface lem morph_feature)
                   (enumerate 0 (zip surface_words (zip lemmas morph_features))))"

text \<open>
  The two classes a lemma decoder can be (the source tests
  \<^verbatim>\<open>isinstance(decoder_lemma, TransformerRNN)\<close>) and the two a tag decoder can be.
\<close>

datatype lemma_decoder = LemmaTransformerRNN TransformerRNN | LemmaDecoderRNN DecoderRNN

datatype morph_decoder = MorphDecoderRNN DecoderRNN | MorphDecoderFF DecoderFF

text \<open>
  What predict.py imports from outside the sources: the loader of a pretrained
  tokenizer and the inverse transformation. A tokenizer maps a string to the ids of
  its subwords (\<^verbatim>\<open>wordpiece_tokenizer.tokenize\<close> followed by
  \<^verbatim>\<open>convert_tokens_to_ids\<close>).
\<close>

record externals =
  from_pretrained :: "string \<Rightarrow> string \<Rightarrow> nat list"
  inverse_transformation :: "string \<Rightarrow> string list \<Rightarrow> string"

text \<open>Lines 55 to 59: one padded row of character ids per surface word.\<close>

definition encode_surfaces ::
  "ConllDataset \<Rightarrow> bool \<Rightarrow> nat \<Rightarrow> string list \<Rightarrow> error + nat list list" where
  "encode_surfaces dataset use_char_lstm max_token_len surface_words =
     (if use_char_lstm then
        mapE (\<lambda>surface.
                bindE (encode surface (surface_char2id dataset) False True)
                  (\<lambda>encoded_surface.
                     Inr (encoded_surface @ replicate (max_token_len - length encoded_surface) 0)))
          surface_words
      else Inr (replicate (length surface_words) (replicate max_token_len 0)))"

text \<open>\<^verbatim>\<open>transformer_output[0][i]\<close>, where \<open>transformer_output\<close> may be \<open>None\<close>.\<close>

definition transformer_row :: "vec list option \<Rightarrow> nat \<Rightarrow> error + vec" where
  "transformer_row transformer_output i =
     (case transformer_output of None \<Rightarrow> Inl TypeError | Some t \<Rightarrow> getitem t i)"

text \<open>Lines 85 to 104: the lemma of every word.\<close>

definition decode_lemmas ::
  "externals \<Rightarrow> lemma_decoder \<Rightarrow> bool \<Rightarrow> nat \<Rightarrow> string list \<Rightarrow> nat list list
     \<Rightarrow> vec list option \<Rightarrow> vec list \<Rightarrow> vec list \<Rightarrow> error + string list" where
  "decode_lemmas ext decoder_lemma use_transformer max_token_len surface_words encoded_surfaces
     transformer_output word_representations context_aware_representations =
     (let words_count = length context_aware_representations
      in case decoder_lemma of
           LemmaTransformerRNN T \<Rightarrow>
             bindE (TransformerRNN_predict (inverse_transformation ext) T word_representations
                      context_aware_representations encoded_surfaces surface_words
                      (if use_transformer then transformer_output else None))
               (\<lambda>(scores, lemmas). Inr lemmas)
         | LemmaDecoderRNN D \<Rightarrow>
             mapE (\<lambda>i.
                     bindE (getitem word_representations i) (\<lambda>wr.
                     bindE (getitem context_aware_representations i) (\<lambda>car.
                     bindE (if use_transformer
                            then bindE (transformer_row transformer_output i) (\<lambda>t. Inr (Some t))
                            else Inr None) (\<lambda>tc.
                     bindE (predict D wr car tc (2 * max_token_len))
                       (\<lambda>(scores, lem). Inr (concat lem))))))
               [0..<words_count])"

text \<open>Lines 106 to 119: the dictionary override of the decoded lemmas.\<close>

definition lookup_key :: "lemma_decoder \<Rightarrow> string \<Rightarrow> string" where
  "lookup_key decoder_lemma surface =
     (case decoder_lemma of
        LemmaTransformerRNN T \<Rightarrow> butlast surface
      | LemmaDecoderRNN D \<Rightarrow> surface)"

definition override_lemmas ::
  "lemma_decoder \<Rightarrow> (string \<times> string) list \<Rightarrow> string list \<Rightarrow> string list \<Rightarrow> string list" where
  "override_lemmas decoder_lemma surface2lemma surface_words lemmas =
     map (\<lambda>(surface, lem).
            case map_of surface2lemma (lookup_key decoder_lemma surface) of
              Some forced \<Rightarrow> if forced \<noteq> lem then forced else lem
            | None \<Rightarrow> lem)
       (zip surface_words lemmas)"

text \<open>
  Lines 124 to 140: the tags of every word, joined by semicolons. A decoder of the
  class the flags do not expect fails: DecoderFF.predict takes no \<open>max_len\<close>, and the
  pair DecoderRNN.predict returns cannot be joined.
\<close>

definition decode_morph_features ::
  "morph_decoder \<Rightarrow> bool \<Rightarrow> bool \<Rightarrow> nat \<Rightarrow> vec list option \<Rightarrow> vec list \<Rightarrow> vec list
     \<Rightarrow> error + string list" where
  "decode_morph_features decoder_morph_tags use_transformer use_rnn_morph max_morph_features_len
     transformer_output word_representations context_aware_representations =
     mapE (\<lambda>i.
             bindE (getitem word_representations i) (\<lambda>wr.
             bindE (getitem context_aware_representations i) (\<lambda>car.
             bindE (if use_transformer
                    then bindE (transformer_row transformer_output i) (\<lambda>t. Inr (Some t))
                    else Inr None) (\<lambda>tc.
             bindE (if use_rnn_morph then
                      (case decoder_morph_tags of
                         MorphDecoderRNN D \<Rightarrow>
                           bindE (predict D wr car tc max_morph_features_len)
                             (\<lambda>(scores, morph_feature). Inr morph_feature)
                       | MorphDecoderFF F \<Rightarrow> Inl TypeError)
                    else
                      (case decoder_morph_tags of
                         MorphDecoderFF F \<Rightarrow> DecoderFF_predict F wr car tc
                       | MorphDecoderRNN D \<Rightarrow>
                           bindE (predict D wr car tc 50) (\<lambda>r. Inl TypeError)))
               (\<lambda>morph_feature. Inr (str_join '';'' morph_feature))))))
       [0..<length context_aware_representations]"

text \<open>
  \<^verbatim>\<open>predict_sentence\<close>. With \<open>use_transformer\<close> off, \<open>sub_tokens\<close> is still the Python
  list it was initialised to when line 79 calls \<^verbatim>\<open>sub_tokens.view\<close>: an
  AttributeError.
\<close>

definition predict_sentence ::
  "externals \<Rightarrow> string list \<Rightarrow> EncoderRNN \<Rightarrow> lemma_decoder \<Rightarrow> morph_decoder \<Rightarrow> ConllDataset
     \<Rightarrow> bool \<Rightarrow> bool \<Rightarrow> string \<Rightarrow> (string \<Rightarrow> nat list) option \<Rightarrow> bool \<Rightarrow> nat
     \<Rightarrow> (string \<times> string) list option \<Rightarrow> error + string" where
  "predict_sentence ext surface_words encoder decoder_lemma decoder_morph_tags dataset
     use_transformer use_char_lstm transformer_model_name tokenizer use_rnn_morph
     max_morph_features_len surface2lemma =
     (if length surface_words = 0 then Inr ''''
      else
        (let max_token_len = fold max (map length surface_words) 0 + 1
         in bindE (encode_surfaces dataset use_char_lstm max_token_len surface_words)
              (\<lambda>encoded_surfaces.
                 if \<not> use_transformer then Inl AttributeError
                 else
                   (let tokenizer = (case tokenizer of
                                       None \<Rightarrow> from_pretrained ext transformer_model_name
                                     | Some t \<Rightarrow> t);
                        sub_tokens = concat (map (\<lambda>surface. tokenizer (butlast surface))
                                               surface_words);
                        word_ids = concat (map (\<lambda>(word_id, surface).
                                                  replicate (length (tokenizer (butlast surface)))
                                                    word_id)
                                             (enumerate 0 surface_words))
                    in bindE (EncoderRNN_forward encoder (sub_tokens, word_ids) encoded_surfaces)
                         (\<lambda>(transformer_output, word_representations,
                             context_aware_representations).
                            bindE (decode_lemmas ext decoder_lemma use_transformer max_token_len
                                     surface_words encoded_surfaces transformer_output
                                     word_representations context_aware_representations)
                              (\<lambda>lemmas.
                                 let lemmas =
                                       (case surface2lemma of
                                          None \<Rightarrow> lemmas
                                        | Some d \<Rightarrow>
                                            if d = [] then lemmas
                                            else override_lemmas decoder_lemma d surface_words
                                                   lemmas)
                                 in bindE (decode_morph_features decoder_morph_tags
                                             use_transformer use_rnn_morph max_morph_features_len
                                             transformer_output word_representations
                                             context_aware_representations)
                                      (\<lambda>morph_features.
                                         Inr (conll_sentence surface_words lemmas
                                                morph_features))))))))"

section \<open>A small network for concrete runs\<close>

definition script_gru :: "vec \<Rightarrow> vec list \<Rightarrow> vec \<times> vec list" where
  "script_gru x h = (case h of [] \<Rightarrow> ([0, 1, 0, 0], []) | v # r \<Rightarrow> (v, r))"

definition example_vocab :: "(string \<times> nat) list" where
  "example_vocab = [(''<p>'', 0), (''<e>'', 1), (''<s>'', 2), (''a'', 3)]"

definition example_decoder :: DecoderRNN where
  "example_decoder = DecoderRNN_init 4 example_vocab 3
          (\<lambda>v. v) (\<lambda>t. [real t]) script_gru (\<lambda>v. v) (\<lambda>v. v)"

definition example_tag_vocab :: "(string \<times> nat) list" where
  "example_tag_vocab = [(''<p>'', 0), (''<e>'', 1), (''<s>'', 2), (''N'', 3), (''SG'', 4)]"

definition example_tagger :: DecoderFF where
  "example_tagger = DecoderFF_init 2 example_tag_vocab (\<lambda>v. v) (\<lambda>v. v)"

definition example_externals :: externals where
  "example_externals =
     \<lparr>from_pretrained = (\<lambda>name w. [7]), inverse_transformation = (\<lambda>surface labels. concat labels)\<rparr>"

definition example_dataset :: ConllDataset where
  "example_dataset =
     \<lparr>surface_char2id = map_of [(''<p>'', 0), (''<e>'', 1), (''a'', 2), (''d'', 3), (''g'', 4),
                                  (''o'', 5)]\<rparr>"

definition example_encoder :: EncoderRNN where
  "example_encoder =
     \<lparr>hidden_size1 = 4, hidden_size2 = 2, enc_embedding = (\<lambda>c. [real c]),
      char_gru = (\<lambda>w h. [0, 1, 0, 0]), word_gru = (\<lambda>ws h i. [1, 0, 0, 0]),
      enc_dropout = (\<lambda>v. v), based_model = Some (\<lambda>toks i. [1]), based_hidden_size = 1,
      tuning_layer = (\<lambda>v. [0, 0, 0, 1])\<rparr>"



section \<open>Facts about segment\_sum\<close>

lemma length_unique: "length (unique xs) = card (set xs)"
  by (simp add: unique_def length_remdups_card_conv)

lemma index_add_rows_length:
  "index_add_rows res idx source = Inr r \<Longrightarrow> length r = length res"
  by (induction res idx source rule: index_add_rows.induct) (auto split: if_splits)

lemma index_add_rows_in_bounds:
  "index_add_rows res idx source = Inr r \<Longrightarrow> length idx \<le> length source
     \<Longrightarrow> \<forall>i \<in> set idx. i < length res"
proof (induction res idx source rule: index_add_rows.induct)
  case (1 res source)
  then show ?case by simp
next
  case (2 res i idx)
  then show ?case by simp
next
  case (3 res i idx x source)
  then show ?case by (auto split: if_splits)
qed

lemma index_add_rows_out_of_bounds:
  "length idx = length source \<Longrightarrow> \<exists>i \<in> set idx. length res \<le> i
     \<Longrightarrow> index_add_rows res idx source = Inl IndexError"
proof (induction res idx source rule: index_add_rows.induct)
  case (1 res source)
  then show ?case by simp
next
  case (2 res i idx)
  then show ?case by simp
next
  case (3 res i idx x source)
  show ?case
  proof (cases "i < length res")
    case True
    with 3 show ?thesis by auto
  next
    case False
    then show ?thesis by simp
  qed
qed

lemma rows_of_Cons:
  "rows_of j (i # idx) (x # source) =
     (if i = j then x # rows_of j idx source else rows_of j idx source)"
  by (simp add: rows_of_def)

lemma index_add_rows_sums:
  "length idx = length source \<Longrightarrow> \<forall>i \<in> set idx. i < length res
     \<Longrightarrow> index_add_rows res idx source =
         Inr (map (\<lambda>j. foldl vadd (res ! j) (rows_of j idx source)) [0..<length res])"
proof (induction res idx source rule: index_add_rows.induct)
  case (1 res source)
  then show ?case by (simp add: rows_of_def map_nth)
next
  case (2 res i idx)
  then show ?case by simp
next
  case (3 res i idx x source)
  let ?res = "res[i := vadd (res ! i) x]"
  from 3 have i: "i < length res" by simp
  from 3 have "index_add_rows ?res idx source =
      Inr (map (\<lambda>j. foldl vadd (?res ! j) (rows_of j idx source)) [0..<length ?res])"
    by simp
  moreover have "map (\<lambda>j. foldl vadd (?res ! j) (rows_of j idx source)) [0..<length ?res] =
      map (\<lambda>j. foldl vadd (res ! j) (rows_of j (i # idx) (x # source))) [0..<length res]"
    using i by (auto simp: rows_of_Cons nth_list_update)
  ultimately show ?case using i by simp
qed

lemma card_lessThan_subset:
  fixes S :: "nat set"
  assumes "finite S" and "\<forall>i \<in> S. i < card S"
  shows "S = {0..<card S}"
proof -
  from assms(2) have "S \<subseteq> {0..<card S}" by auto
  moreover have "card {0..<card S} = card S" by simp
  ultimately show ?thesis
    by (metis card_subset_eq finite_atLeastLessThan)
qed

lemma vadd_zeros: "vadd (replicate (length a) 0) a = a"
  by (induction a) (auto simp: vadd_def)

lemma segment_sum_contiguous:
  assumes "0 < d" and "length segment_ids = length data"
    and "set segment_ids = {0..<k}"
  shows "segment_sum d data segment_ids =
           Inr (map (\<lambda>j. segment_total d j segment_ids data) [0..<k])"
proof -
  have k: "length (unique segment_ids) = k"
    using assms(3) by (simp add: length_unique)
  let ?res = "replicate k (replicate d (0::real))"
  have "\<forall>i \<in> set segment_ids. i < length ?res"
    using assms(3) by simp
  from index_add_rows_sums [OF assms(2) this]
  have "index_add_rows ?res segment_ids data =
          Inr (map (\<lambda>j. foldl vadd (?res ! j) (rows_of j segment_ids data)) [0..<k])"
    by simp
  also have "map (\<lambda>j. foldl vadd (?res ! j) (rows_of j segment_ids data)) [0..<k] =
          map (\<lambda>j. segment_total d j segment_ids data) [0..<k]"
    by (simp add: segment_total_def)
  finally show ?thesis
    using assms(1,2) k by (simp add: segment_sum_def index_add_def bindE_def)
qed

lemma segment_sum_Inr_bounds:
  assumes "segment_sum d data segment_ids = Inr r"
  shows "length segment_ids = length data"
    and "\<forall>i \<in> set segment_ids. i < card (set segment_ids)"
    and "length r = card (set segment_ids)"
proof -
  let ?res = "replicate (card (set segment_ids)) (replicate d (0::real))"
  from assms have len: "length segment_ids = length data"
    by (auto simp: segment_sum_def index_add_def bindE_def length_unique
        split: if_splits sum.splits)
  from assms len have run: "index_add_rows ?res segment_ids data = Inr r"
    by (auto simp: segment_sum_def index_add_def bindE_def length_unique
        split: if_splits sum.splits)
  show "length segment_ids = length data" by (rule len)
  from index_add_rows_in_bounds [OF run] len
  show "\<forall>i \<in> set segment_ids. i < card (set segment_ids)" by simp
  from index_add_rows_length [OF run]
  show "length r = card (set segment_ids)" by simp
qed

lemma segment_sum_gap:
  assumes "length segment_ids = length data"
    and "\<exists>l \<in> set segment_ids. card (set segment_ids) \<le> l"
  shows "segment_sum d data segment_ids = Inl IndexError"
proof -
  let ?res = "replicate (card (set segment_ids)) (replicate d (0::real))"
  have "\<exists>i \<in> set segment_ids. length ?res \<le> i"
    using assms(2) by simp
  from index_add_rows_out_of_bounds [OF assms(1) this]
  show ?thesis
    using assms(1) by (simp add: segment_sum_def index_add_def bindE_def length_unique)
qed

section \<open>Claims about segment\_sum\<close>

text \<open>
  C5. For four subword embeddings \<open>a, b, c, e\<close> of width \<open>d\<close> with word-index labels
  \<open>[0, 0, 1, 1]\<close>, segment\_sum returns exactly two rows, \<open>a + b\<close> then \<open>c + e\<close>.
  More generally, whenever the labels take exactly the values \<open>0, ..., k - 1\<close> (which
  covers every ascending, contiguous labelling from 0), the result has the \<open>k\<close> rows
  of the distinct word indices in ascending order, row \<open>j\<close> being the sum of the
  embeddings labelled \<open>j\<close>.
\<close>

theorem segment_sum_pools_per_word_index:
  "(0 < d \<and> length a = d \<and> length b = d \<and> length c = d \<and> length e = d \<longrightarrow>
      segment_sum d [a, b, c, e] [0, 0, 1, 1] = Inr [vadd a b, vadd c e])
   \<and> (0 < d \<and> length segment_ids = length data \<and> sorted segment_ids
        \<and> set segment_ids = {0..<k} \<longrightarrow>
      segment_sum d data segment_ids =
        Inr (map (\<lambda>j. segment_total d j segment_ids data) [0..<k]))"
proof (intro conjI impI)
  assume h: "0 < d \<and> length a = d \<and> length b = d \<and> length c = d \<and> length e = d"
  have s: "set [0, 0, 1, 1::nat] = {0..<2}" by auto
  have za: "vadd (replicate d 0) a = a" and zc: "vadd (replicate d 0) c = c"
    using h vadd_zeros [of a] vadd_zeros [of c] by auto
  have "segment_sum d [a, b, c, e] [0, 0, 1, 1] =
      Inr (map (\<lambda>j. segment_total d j [0, 0, 1, 1] [a, b, c, e]) [0..<2])"
    by (rule segment_sum_contiguous) (use h s in auto)
  also have "[0..<2] = [0, Suc 0]" by (simp add: upt_rec)
  finally show "segment_sum d [a, b, c, e] [0, 0, 1, 1] = Inr [vadd a b, vadd c e]"
    by (simp add: segment_total_def rows_of_def za zc)
next
  assume "0 < d \<and> length segment_ids = length data \<and> sorted segment_ids
        \<and> set segment_ids = {0..<k}"
  then show "segment_sum d data segment_ids =
      Inr (map (\<lambda>j. segment_total d j segment_ids data) [0..<k])"
    by (simp add: segment_sum_contiguous)
qed

theorem segment_sum_pools_per_word_index_witness:
  "segment_sum 2 [[1, 2], [3, 4], [5, 6], [7, 8]] [0, 0, 1, 1] = Inr [[4, 6], [12, 14]]
   \<and> segment_sum 1 [[1], [2], [4]] [0, 1, 1] = Inr [[1], [6]]"
proof -
  have "segment_sum 2 [[1, 2], [3, 4], [5, 6], [7, 8]] [0, 0, 1, 1] =
      Inr [vadd [1, 2] [3, 4], vadd [5, 6] [7, 8]]"
    using segment_sum_pools_per_word_index [of 2 "[1, 2]" "[3, 4]" "[5, 6]" "[7, 8]"]
    by simp
  moreover have "set [0, 1, 1::nat] = {0..<2}" by auto
  then have "segment_sum 1 [[1], [2], [4]] [0, 1, 1] =
      Inr (map (\<lambda>j. segment_total 1 j [0, 1, 1] [[1], [2], [4]]) [0..<2])"
    using segment_sum_pools_per_word_index [of 1 _ _ _ _ "[0, 1, 1]" "[[1], [2], [4]]" 2]
    by simp
  moreover have "[0..<2] = [0, Suc 0]" by (simp add: upt_rec)
  ultimately show ?thesis
    by (simp add: segment_total_def rows_of_def vadd_def)
qed

text \<open>
  C10. segment\_sum allocates one output row per distinct label (\<open>card (set segment_ids)\<close>
  rows) and adds each embedding into the row numbered by the label itself. With
  one label per embedding it therefore returns exactly when the labels' value set is
  \<open>{0, ..., k - 1}\<close> for \<open>k\<close> distinct values; a label at or above the number of
  distinct values (as in \<open>[0, 0, 2]\<close>) addresses a row outside the output and the
  call fails with an index error.
\<close>

theorem segment_sum_safe_iff_labels_contiguous:
  "(0 < d \<and> length segment_ids = length data \<longrightarrow>
      (\<exists>r. segment_sum d data segment_ids = Inr r \<and> length r = card (set segment_ids))
        = (set segment_ids = {0..<card (set segment_ids)}))
   \<and> (length segment_ids = length data
        \<and> (\<exists>l \<in> set segment_ids. card (set segment_ids) \<le> l) \<longrightarrow>
      segment_sum d data segment_ids = Inl IndexError)"
proof (intro conjI impI)
  assume h: "0 < d \<and> length segment_ids = length data"
  show "(\<exists>r. segment_sum d data segment_ids = Inr r \<and> length r = card (set segment_ids))
        = (set segment_ids = {0..<card (set segment_ids)})"
  proof
    assume "\<exists>r. segment_sum d data segment_ids = Inr r \<and> length r = card (set segment_ids)"
    then obtain r where "segment_sum d data segment_ids = Inr r" by blast
    from segment_sum_Inr_bounds(2) [OF this]
    show "set segment_ids = {0..<card (set segment_ids)}"
      by (intro card_lessThan_subset) auto
  next
    assume "set segment_ids = {0..<card (set segment_ids)}"
    with h have "segment_sum d data segment_ids =
        Inr (map (\<lambda>j. segment_total d j segment_ids data) [0..<card (set segment_ids)])"
      by (intro segment_sum_contiguous) auto
    then show "\<exists>r. segment_sum d data segment_ids = Inr r \<and> length r = card (set segment_ids)"
      by simp
  qed
next
  assume "length segment_ids = length data
        \<and> (\<exists>l \<in> set segment_ids. card (set segment_ids) \<le> l)"
  then show "segment_sum d data segment_ids = Inl IndexError"
    by (simp add: segment_sum_gap)
qed

theorem segment_sum_safe_iff_labels_contiguous_witness:
  "segment_sum 1 [[1], [2], [4]] [0, 0, 2] = Inl IndexError
   \<and> (\<exists>r. segment_sum 1 [[1], [2], [4]] [0, 0, 1] = Inr r \<and> length r = 2)"
proof -
  have c2: "card (set [0, 0, 2::nat]) = 2" and c1: "card (set [0, 0, 1::nat]) = 2"
    by simp_all
  have "segment_sum 1 [[1], [2], [4]] [0, 0, 2] = Inl IndexError"
    using segment_sum_safe_iff_labels_contiguous [of 1 "[0, 0, 2]" "[[1], [2], [4]]"] c2
    by simp
  moreover have "set [0, 0, 1::nat] = {0..<card (set [0, 0, 1::nat])}"
    unfolding c1 by auto
  then have "\<exists>r. segment_sum 1 [[1], [2], [4]] [0, 0, 1] = Inr r \<and>
      length r = card (set [0, 0, 1::nat])"
    using segment_sum_safe_iff_labels_contiguous [of 1 "[0, 0, 1]" "[[1], [2], [4]]"]
    by (simp del: set_simps card_insert_if)
  then have "\<exists>r. segment_sum 1 [[1], [2], [4]] [0, 0, 1] = Inr r \<and> length r = 2"
    unfolding c1 .
  ultimately show ?thesis by simp
qed

section \<open>Facts about greedy decoding\<close>

lemma topk_one_hd:
  "topk 1 xs = Inr tops \<Longrightarrow> \<exists>p. tops = [p]"
  by (cases "sort_key (\<lambda>p. - snd p) (enumerate 0 xs)")
     (auto simp: topk_def split: if_splits dest!: arg_cong[where f=length])

lemma predict_loop_tokens:
  "predict_loop D n di tok hid scores preds = Inr (scores', preds') \<Longrightarrow>
     preds' = preds @ map (the \<circ> index2token D)
       (filter (\<lambda>t. 2 < t) (takeWhile (\<lambda>t. t \<noteq> 1) (greedy_tokens D n tok hid)))"
proof (induction n arbitrary: di tok hid scores preds)
  case 0
  then show ?case by simp
next
  case (Suc n)
  obtain out hid' where g: "gru D (embedding D tok) hid = (out, hid')"
    by (cases "gru D (embedding D tok) hid")
  show ?case
  proof (cases "topk 1 (classifier D out)")
    case (Inl e)
    with Suc.prems g show ?thesis by simp
  next
    case (Inr tops)
    let ?t = "fst (hd tops)"
    show ?thesis
    proof (cases "?t = 1")
      case True
      with Suc.prems g Inr show ?thesis by simp
    next
      case ne: False
      show ?thesis
      proof (cases "2 < ?t")
        case True
        with Suc.prems g Inr ne obtain s where s: "index2token D ?t = Some s"
          and run: "predict_loop D n (Suc di) ?t hid' (scores[di := classifier D out])
                      (preds @ [s]) = Inr (scores', preds')"
          by (auto simp: Let_def split: option.splits)
        from Suc.IH [OF run] g Inr ne True s show ?thesis by simp
      next
        case False
        with Suc.prems g Inr ne
        have run: "predict_loop D n (Suc di) ?t hid' (scores[di := classifier D out])
                      preds = Inr (scores', preds')"
          by simp
        from Suc.IH [OF run] g Inr ne False show ?thesis by simp
      qed
    qed
  qed
qed

lemma predict_loop_symbols:
  "predict_loop D n di tok hid scores preds = Inr (scores', preds') \<Longrightarrow>
     s \<in> set preds' \<Longrightarrow> s \<in> set preds \<or> (\<exists>t. 2 < t \<and> index2token D t = Some s)"
proof (induction n arbitrary: di tok hid scores preds)
  case 0
  then show ?case by simp
next
  case (Suc n)
  obtain out hid' where g: "gru D (embedding D tok) hid = (out, hid')"
    by (cases "gru D (embedding D tok) hid")
  show ?case
  proof (cases "topk 1 (classifier D out)")
    case (Inl e)
    with Suc.prems g show ?thesis by simp
  next
    case (Inr tops)
    let ?t = "fst (hd tops)"
    show ?thesis
    proof (cases "?t = 1")
      case True
      with Suc.prems g Inr show ?thesis by simp
    next
      case ne: False
      show ?thesis
      proof (cases "2 < ?t")
        case True
        with Suc.prems g Inr ne obtain s' where s: "index2token D ?t = Some s'"
          and run: "predict_loop D n (Suc di) ?t hid' (scores[di := classifier D out])
                      (preds @ [s']) = Inr (scores', preds')"
          by (auto simp: Let_def split: option.splits)
        from Suc.IH [OF run Suc.prems(2)] s True show ?thesis by auto
      next
        case False
        with Suc.prems g Inr ne
        have run: "predict_loop D n (Suc di) ?t hid' (scores[di := classifier D out])
                      preds = Inr (scores', preds')"
          by simp
        from Suc.IH [OF run Suc.prems(2)] show ?thesis .
      qed
    qed
  qed
qed

lemma length_greedy_tokens: "length (greedy_tokens D n tok hid) \<le> n"
  by (induction n arbitrary: tok hid) (auto split: prod.splits sum.splits)

lemma inverse_vocab_SomeD:
  "inverse_vocab voc t = Some s \<Longrightarrow> (s, t) \<in> set voc"
  by (auto simp: inverse_vocab_def dest!: map_of_SomeD)

lemma inverse_vocab_inj:
  "distinct (map fst voc) \<Longrightarrow> inverse_vocab voc t = Some s
     \<Longrightarrow> inverse_vocab voc t' = Some s \<Longrightarrow> t = t'"
  by (meson inverse_vocab_SomeD eq_key_imp_eq_value)


lemmas example_simps = example_decoder_def example_vocab_def DecoderRNN_init_def init_hidden_def
  relu_def script_gru_def topk_def inverse_vocab_def


section \<open>Facts about beam search\<close>

lemma topk_members:
  "topk k xs = Inr tops \<Longrightarrow> (ix, p) \<in> set tops \<Longrightarrow> ix < length xs \<and> p = xs ! ix"
  by (auto simp: topk_def in_set_enumerate_eq split: if_splits dest!: in_set_takeD)

lemma expand_children_appends:
  "expand_children D sl st hid tops (new, cmp) = Inr (new', cmp') \<Longrightarrow>
     \<exists>newc cmpc. new' = new @ newc \<and> cmp' = cmp @ cmpc
       \<and> (\<forall>c \<in> set newc. \<exists>ix p. (ix, p) \<in> set tops \<and> ix \<noteq> 1
             \<and> new_state D sl st hid ix p = Inr c)
       \<and> (\<forall>c \<in> set cmpc. \<exists>p. (1, p) \<in> set tops \<and> new_state D sl st hid 1 p = Inr c)"
proof (induction tops arbitrary: new cmp)
  case Nil
  then show ?case by simp
next
  case (Cons a tops)
  obtain ix p where a: "a = (ix, p)" by (cases a)
  from Cons.prems a obtain c where c: "new_state D sl st hid ix p = Inr c"
    by (auto split: sum.splits)
  show ?case
  proof (cases "ix = 1")
    case True
    from Cons.prems a True c
    have "expand_children D sl st hid tops (new, cmp @ [c]) = Inr (new', cmp')"
      by simp
    from Cons.IH [OF this] obtain newc cmpc where
      r: "new' = new @ newc" "cmp' = (cmp @ [c]) @ cmpc"
      and n: "\<forall>c \<in> set newc. \<exists>ix p. (ix, p) \<in> set tops \<and> ix \<noteq> 1
             \<and> new_state D sl st hid ix p = Inr c"
      and m: "\<forall>c \<in> set cmpc. \<exists>p. (1, p) \<in> set tops \<and> new_state D sl st hid 1 p = Inr c"
      by blast
    have n': "\<forall>c \<in> set newc. \<exists>ix p. (ix, p) \<in> set (a # tops) \<and> ix \<noteq> 1
             \<and> new_state D sl st hid ix p = Inr c"
      using n by fastforce
    have m': "\<forall>c \<in> set (c # cmpc). \<exists>p. (1, p) \<in> set (a # tops)
             \<and> new_state D sl st hid 1 p = Inr c"
      using m a True c by fastforce
    from r n' m' show ?thesis
      by (intro exI [of _ newc] exI [of _ "c # cmpc"]) simp
  next
    case False
    from Cons.prems a False c
    have "expand_children D sl st hid tops (new @ [c], cmp) = Inr (new', cmp')"
      by simp
    from Cons.IH [OF this] obtain newc cmpc where
      r: "new' = (new @ [c]) @ newc" "cmp' = cmp @ cmpc"
      and n: "\<forall>c \<in> set newc. \<exists>ix p. (ix, p) \<in> set tops \<and> ix \<noteq> 1
             \<and> new_state D sl st hid ix p = Inr c"
      and m: "\<forall>c \<in> set cmpc. \<exists>p. (1, p) \<in> set tops \<and> new_state D sl st hid 1 p = Inr c"
      by blast
    have n': "\<forall>c \<in> set (c # newc). \<exists>ix p. (ix, p) \<in> set (a # tops) \<and> ix \<noteq> 1
             \<and> new_state D sl st hid ix p = Inr c"
      using n a False c by fastforce
    have m': "\<forall>c \<in> set cmpc. \<exists>p. (1, p) \<in> set (a # tops)
             \<and> new_state D sl st hid 1 p = Inr c"
      using m by fastforce
    from r n' m' show ?thesis
      by (intro exI [of _ "c # newc"] exI [of _ cmpc]) simp
  qed
qed

lemma new_state_fields:
  assumes "new_state D sl st hid ix p = Inr c"
  shows "score c = score st * p" and "last_output c = ix" and "hidden c = hid"
    and "ix = 1 \<Longrightarrow> prediction c = prediction st \<and>
           normalized_score c =
             (score c / ((5 + (real (length (prediction st)) + 1)) / 6))
               * (real_of_int sl / (real (length (prediction st)) + 1))"
    and "ix \<noteq> 1 \<Longrightarrow> (\<exists>tok. index2token D ix = Some tok \<and> prediction c = prediction st @ tok)
           \<and> normalized_score c = score c / ((5 + real (length (prediction c))) / 6)"
  using assms by (auto simp: new_state_def Let_def split: if_splits option.splits)


lemma expand_states_single:
  assumes "expand_states D sl bs [st] ([], []) = Inr (new, cmp)"
    and "\<not> sl + 2 \<le> int (length (prediction st))"
  shows "\<exists>tops. topk bs (next_probs D st) = Inr tops
           \<and> expand_children D sl st (next_hidden D st) tops ([], []) = Inr (new, cmp)"
  using assms
  by (auto simp: next_probs_def next_hidden_def Let_def split: prod.splits sum.splits)

lemma expand_states_capped:
  "sl + 2 \<le> int (length (prediction st)) \<Longrightarrow>
     expand_states D sl bs (st # sts) acc = expand_states D sl bs sts acc"
  by simp

lemma expand_states_completed:
  "expand_states D sl bs states (new, cmp) = Inr (new', cmp') \<Longrightarrow>
     \<forall>c \<in> set cmp. last_output c = 1 \<Longrightarrow> \<forall>c \<in> set cmp'. last_output c = 1"
proof (induction states arbitrary: new cmp)
  case Nil
  then show ?case by simp
next
  case (Cons st states)
  show ?case
  proof (cases "sl + 2 \<le> int (length (prediction st))")
    case True
    with Cons.prems have "expand_states D sl bs states (new, cmp) = Inr (new', cmp')"
      by simp
    from Cons.IH [OF this Cons.prems(2)] show ?thesis .
  next
    case False
    with Cons.prems(1) obtain tops new1 cmp1 where
      ch: "expand_children D sl st (next_hidden D st) tops (new, cmp) = Inr (new1, cmp1)"
      and rest: "expand_states D sl bs states (new1, cmp1) = Inr (new', cmp')"
      by (auto simp: next_probs_def next_hidden_def Let_def split: prod.splits sum.splits)
    from expand_children_appends [OF ch] obtain cmpc where
      "cmp1 = cmp @ cmpc"
      and "\<forall>c \<in> set cmpc. \<exists>p. new_state D sl st (next_hidden D st) 1 p = Inr c"
      by blast
    with Cons.prems(2) have "\<forall>c \<in> set cmp1. last_output c = 1"
      by (auto dest: new_state_fields(2))
    from Cons.IH [OF rest this] show ?thesis .
  qed
qed

lemma beam_loop_completed:
  assumes "beam_loop D sl bs states completed = Some y"
  shows "(\<forall>c \<in> set completed. last_output c = 1) \<longrightarrow>
     (\<forall>final. y = Inr final \<longrightarrow> (\<forall>c \<in> set final. last_output c = 1))"
proof (rule beam_loop.raw_induct [where P = "\<lambda>D sl bs states completed y.
     (\<forall>c \<in> set completed. last_output c = 1) \<longrightarrow>
     (\<forall>final. y = Inr final \<longrightarrow> (\<forall>c \<in> set final. last_output c = 1))", OF _ assms],
    goal_cases)
  case (1 loop D sl bs states completed y)
  show ?case
  proof (cases "states = []")
    case True
    with 1(2) show ?thesis by auto
  next
    case False
    show ?thesis
    proof (cases "expand_states D sl bs states ([], completed)")
      case (Inl e)
      with 1(2) False show ?thesis by auto
    next
      case (Inr r)
      obtain new cmp where r: "r = (new, cmp)" by (cases r)
      from 1(2) False Inr r
      have "loop D sl bs (take bs (best_first new)) cmp = Some y" by simp
      from 1(1) [OF this] expand_states_completed [OF Inr [unfolded r]]
      show ?thesis by blast
    qed
  qed
qed

lemma best_first_Cons:
  assumes "best_first states = best # rest"
  shows "best \<in> set states" and "\<forall>c \<in> set states. normalized_score c \<le> normalized_score best"
proof -
  have s: "set (best_first states) = set states"
    by (simp add: best_first_def)
  with assms show "best \<in> set states" by auto
  have "sorted (map (\<lambda>s. - normalized_score s) (best_first states))"
    by (simp add: best_first_def)
  with assms have "\<forall>c \<in> set rest. - normalized_score best \<le> - normalized_score c"
    by simp
  with assms s show "\<forall>c \<in> set states. normalized_score c \<le> normalized_score best"
    by auto
qed

lemma best_first_Nil: "best_first states = [] \<longleftrightarrow> states = []"
  by (metis best_first_def length_sort length_0_conv)

lemmas example_beam_simps = beam_search_def initial_state_def beam_loop.simps best_first_def
  new_state_def next_probs_def Let_def


lemma insort_key_cong_order:
  "\<forall>b \<in> set ys. (f a \<le> f b) = (g a \<le> g b) \<Longrightarrow> insort_key f a ys = insort_key g a ys"
  by (induction ys) auto

lemma sort_key_cong_order:
  "\<forall>a \<in> set l. \<forall>b \<in> set l. (f a \<le> f b) = (g a \<le> g b) \<Longrightarrow> sort_key f l = sort_key g l"
proof (induction l)
  case Nil
  then show ?case by simp
next
  case (Cons a l)
  then have "sort_key f l = sort_key g l" by simp
  moreover have "\<forall>b \<in> set (sort_key g l). (f a \<le> f b) = (g a \<le> g b)"
    using Cons.prems by simp
  ultimately show ?case
    by (simp add: insort_key_cong_order)
qed

lemma insort_key_map_inj:
  "insort_key f (h a) (map h ys) = map h (insort_key (\<lambda>x. f (h x)) a ys)"
  by (induction ys) auto

lemma sort_key_map_inj:
  "sort_key f (map h l) = map h (sort_key (\<lambda>x. f (h x)) l)"
  by (induction l) (auto simp: insort_key_map_inj)

lemma enumerate_as_map:
  "enumerate 0 ys = map (\<lambda>i. (i, ys ! i)) [0..<length ys]"
  by (auto intro!: nth_equalityI simp: enumerate_eq_zip)

lemma sorted_indices:
  "map fst (sort_key (\<lambda>p. - snd p) (enumerate 0 ys)) =
     sort_key (\<lambda>i. - (ys ! i)) [0..<length (ys::real list)]"
  by (simp add: enumerate_as_map sort_key_map_inj comp_def)

lemma sorted_indices_order_preserving:
  assumes "order_preserving sm"
  shows "map fst (sort_key (\<lambda>p. - snd p) (enumerate 0 (sm xs))) =
         map fst (sort_key (\<lambda>p. - snd p) (enumerate 0 xs))"
proof -
  from assms have len: "length (sm xs) = length xs"
    and ord: "\<forall>i < length xs. \<forall>j < length xs. (sm xs ! i \<le> sm xs ! j) = (xs ! i \<le> xs ! j)"
    by (auto simp: order_preserving_def)
  have "sort_key (\<lambda>i. - (sm xs ! i)) [0..<length xs] =
        sort_key (\<lambda>i. - (xs ! i)) [0..<length xs]"
    by (rule sort_key_cong_order) (use ord in auto)
  then show ?thesis
    by (simp add: sorted_indices len)
qed

lemma topk_one_order_preserving:
  assumes "order_preserving sm" and "topk 1 xs = Inr tops"
  shows "\<exists>p. topk 1 (sm xs) = Inr [(fst (hd tops), p)]"
proof -
  let ?s = "sort_key (\<lambda>p. - snd p) (enumerate 0 xs)"
  let ?s' = "sort_key (\<lambda>p. - snd p) (enumerate 0 (sm xs))"
  from assms(1) have len: "length (sm xs) = length xs"
    by (simp add: order_preserving_def)
  from assms(2) have pos: "1 \<le> length xs" and tops: "tops = take 1 ?s"
    by (auto simp: topk_def Suc_le_eq split: if_splits)
  from pos obtain a r where s: "?s = a # r"
    by (cases ?s) (auto dest!: arg_cong [where f = length])
  from pos len obtain a' r' where s': "?s' = a' # r'"
    by (cases ?s') (auto dest!: arg_cong [where f = length])
  from sorted_indices_order_preserving [OF assms(1), of xs] s s'
  have "fst a' = fst a" by simp
  moreover from tops s have "hd tops = a" by simp
  moreover from pos len s' have "topk 1 (sm xs) = Inr [a']"
    by (cases xs) (auto simp: topk_def)
  ultimately show ?thesis
    by (cases a') auto
qed

lemma predict_loop_lookups:
  "predict_loop D n di tok hid scores preds = Inr (scores', preds') \<Longrightarrow>
     \<forall>t \<in> set (filter (\<lambda>t. 2 < t) (takeWhile (\<lambda>t. t \<noteq> 1) (greedy_tokens D n tok hid))).
        index2token D t \<noteq> None"
proof (induction n arbitrary: di tok hid scores preds)
  case 0
  then show ?case by simp
next
  case (Suc n)
  obtain out hid' where g: "gru D (embedding D tok) hid = (out, hid')"
    by (cases "gru D (embedding D tok) hid")
  show ?case
  proof (cases "topk 1 (classifier D out)")
    case (Inl e)
    with Suc.prems g show ?thesis by simp
  next
    case (Inr tops)
    let ?t = "fst (hd tops)"
    show ?thesis
    proof (cases "?t = 1")
      case True
      with Suc.prems g Inr show ?thesis by simp
    next
      case ne: False
      show ?thesis
      proof (cases "2 < ?t")
        case True
        with Suc.prems g Inr ne obtain s where s: "index2token D ?t = Some s"
          and run: "predict_loop D n (Suc di) ?t hid' (scores[di := classifier D out])
                      (preds @ [s]) = Inr (scores', preds')"
          by (auto simp: Let_def split: option.splits)
        from Suc.IH [OF run] g Inr ne True s show ?thesis by simp
      next
        case False
        with Suc.prems g Inr ne
        have run: "predict_loop D n (Suc di) ?t hid' (scores[di := classifier D out])
                      preds = Inr (scores', preds')"
          by simp
        from Suc.IH [OF run] g Inr ne False show ?thesis by simp
      qed
    qed
  qed
qed

lemma beam_loop_Nil: "beam_loop D sl bs [] cmp = Some (Inr cmp)"
  by (subst beam_loop.simps) simp

lemma beam_loop_greedy:
  assumes op: "order_preserving (softmax D)"
  shows "1 \<in> set (greedy_tokens D n tok hid) \<Longrightarrow>
     \<forall>t \<in> set (takeWhile (\<lambda>t. t \<noteq> 1) (greedy_tokens D n tok hid)). index2token D t \<noteq> None \<Longrightarrow>
     int (length (pr @ concat (map (the \<circ> index2token D)
            (takeWhile (\<lambda>t. t \<noteq> 1) (greedy_tokens D n tok hid))))) < sl + 2 \<Longrightarrow>
     \<exists>c. beam_loop D sl 1
            [\<lparr>prediction = pr, score = s, normalized_score = ns, last_output = tok,
              hidden = hid\<rparr>] [] = Some (Inr [c])
          \<and> prediction c = pr @ concat (map (the \<circ> index2token D)
               (takeWhile (\<lambda>t. t \<noteq> 1) (greedy_tokens D n tok hid)))"
proof (induction n arbitrary: tok hid pr s ns)
  case 0
  then show ?case by simp
next
  case (Suc n)
  let ?st = "\<lparr>prediction = pr, score = s, normalized_score = ns, last_output = tok,
              hidden = hid\<rparr>"
  obtain out hid' where g: "gru D (embedding D tok) hid = (out, hid')"
    by (cases "gru D (embedding D tok) hid")
  from Suc.prems(1) g obtain tops where tops: "topk 1 (classifier D out) = Inr tops"
    by (cases "topk 1 (classifier D out)") auto
  let ?t = "fst (hd tops)"
  from tops g have gt: "greedy_tokens D (Suc n) tok hid = ?t # greedy_tokens D n ?t hid'"
    by simp
  from topk_one_order_preserving [OF op tops] obtain p where
    p: "topk 1 (softmax D (classifier D out)) = Inr [(?t, p)]"
    by blast
  from Suc.prems(3) have cap: "\<not> sl + 2 \<le> int (length pr)"
    by simp
  show ?case
  proof (cases "?t = 1")
    case True
    let ?c = "\<lparr>prediction = pr, score = s * p,
               normalized_score = (s * p / ((5 + (real (length pr) + 1)) / 6))
                  * (real_of_int sl / (real (length pr) + 1)),
               last_output = 1, hidden = hid'\<rparr>"
    from cap g p True
    have "expand_states D sl 1 [?st] ([], []) = Inr ([], [?c])"
      by (simp add: new_state_def Let_def)
    then have "beam_loop D sl 1 [?st] [] = Some (Inr [?c])"
      by (subst beam_loop.simps) (simp add: best_first_def beam_loop_Nil)
    with True show ?thesis unfolding gt by simp
  next
    case False
    from Suc.prems(2)
    have "\<forall>t \<in> set (takeWhile (\<lambda>t. t \<noteq> 1) (?t # greedy_tokens D n ?t hid')).
        index2token D t \<noteq> None"
      unfolding gt .
    with False obtain tk where tk: "index2token D ?t = Some tk"
      by auto
    let ?c = "\<lparr>prediction = pr @ tk, score = s * p,
               normalized_score = s * p / ((5 + real (length (pr @ tk))) / 6),
               last_output = ?t, hidden = hid'\<rparr>"
    from cap g p False tk
    have "expand_states D sl 1 [?st] ([], []) = Inr ([?c], [])"
      by (simp add: new_state_def Let_def)
    then have step: "beam_loop D sl 1 [?st] [] = beam_loop D sl 1 [?c] []"
      by (subst beam_loop.simps) (simp add: best_first_def)
    from Suc.prems(1) have "1 \<in> set (?t # greedy_tokens D n ?t hid')"
      unfolding gt .
    with False have one: "1 \<in> set (greedy_tokens D n ?t hid')"
      by auto
    from Suc.prems(2)
    have "\<forall>t \<in> set (takeWhile (\<lambda>t. t \<noteq> 1) (?t # greedy_tokens D n ?t hid')).
        index2token D t \<noteq> None"
      unfolding gt .
    with False
    have look: "\<forall>t \<in> set (takeWhile (\<lambda>t. t \<noteq> 1) (greedy_tokens D n ?t hid')).
        index2token D t \<noteq> None"
      by simp
    from Suc.prems(3)
    have "int (length (pr @ concat (map (the \<circ> index2token D)
            (takeWhile (\<lambda>t. t \<noteq> 1) (?t # greedy_tokens D n ?t hid'))))) < sl + 2"
      unfolding gt .
    with False tk
    have len: "int (length ((pr @ tk) @ concat (map (the \<circ> index2token D)
            (takeWhile (\<lambda>t. t \<noteq> 1) (greedy_tokens D n ?t hid'))))) < sl + 2"
      by simp
    from Suc.IH [OF one look len, of "s * p" "s * p / ((5 + real (length (pr @ tk))) / 6)"]
    obtain c where "beam_loop D sl 1 [?c] [] = Some (Inr [c])"
      and "prediction c = (pr @ tk) @ concat (map (the \<circ> index2token D)
               (takeWhile (\<lambda>t. t \<noteq> 1) (greedy_tokens D n ?t hid')))"
      by blast
    with step False tk show ?thesis unfolding gt by (auto simp: comp_def)
  qed
qed


lemma order_preserving_id: "order_preserving (\<lambda>v. v)"
  by (simp add: order_preserving_def)


section \<open>Claims about DecoderRNN\<close>

text \<open>
  C2. Whenever greedy decoding returns, its symbol sequence is the image under
  \<open>index2token\<close> of the arg-max token stream cut at its first END (id 1) and with the
  ids 0, 1, 2 filtered out: the loop stops at the first END, the output is at most
  \<open>max_len\<close> long, and no returned symbol is the PAD, END or START symbol of the
  vocabulary the decoder was built from.
\<close>

theorem predict_output_excludes_special_symbols:
  assumes "distinct (map fst voc)"
    and "D = DecoderRNN_init hsize voc lsize w emb g cls sm"
    and "predict D word_embedding context_vector transformer_context max_len =
           Inr (scores, predictions)"
  shows "predictions = map (the \<circ> index2token D)
           (filter (\<lambda>t. 2 < t) (takeWhile (\<lambda>t. t \<noteq> 1)
              (greedy_tokens D max_len 2
                 (init_hidden D word_embedding context_vector transformer_context))))
         \<and> length predictions \<le> max_len
         \<and> (\<forall>s \<in> set predictions. \<forall>t \<le> 2. index2token D t \<noteq> Some s)"
proof -
  let ?hid = "init_hidden D word_embedding context_vector transformer_context"
  let ?toks = "greedy_tokens D max_len 2 ?hid"
  from assms(3) have run: "predict_loop D max_len 0 2 ?hid
      (replicate max_len (replicate (vocab_size D) 0)) [] = Inr (scores, predictions)"
    by (simp add: predict_def)
  from predict_loop_tokens [OF run]
  have eq: "predictions = map (the \<circ> index2token D)
      (filter (\<lambda>t. 2 < t) (takeWhile (\<lambda>t. t \<noteq> 1) ?toks))"
    by simp
  have "length (filter (\<lambda>t. 2 < t) (takeWhile (\<lambda>t. t \<noteq> 1) ?toks)) \<le> length ?toks"
    by (meson length_filter_le length_takeWhile_le le_trans)
  with eq length_greedy_tokens [of D max_len 2 ?hid]
  have len: "length predictions \<le> max_len"
    by (metis length_map le_trans)
  have "\<forall>s \<in> set predictions. \<forall>t \<le> 2. index2token D t \<noteq> Some s"
  proof (intro ballI allI impI)
    fix s t
    assume s: "s \<in> set predictions" and t: "t \<le> (2::nat)"
    from predict_loop_symbols [OF run s]
    obtain t' where t': "2 < t'" "index2token D t' = Some s" by auto
    show "index2token D t \<noteq> Some s"
    proof
      assume "index2token D t = Some s"
      with t' assms(1,2) have "t = t'"
        by (auto simp: DecoderRNN_init_def dest: inverse_vocab_inj)
      with t t' show False by simp
    qed
  qed
  with eq len show ?thesis by blast
qed

theorem predict_output_excludes_special_symbols_witness:
  "predict example_decoder [0, 0, 0, 1] [0, 0, 1, 0] (Some [0, 0, 0, 1]) 5 =
     Inr ([[0, 0, 0, 1], [0, 0, 1, 0], [0, 0, 0, 1], [0, 1, 0, 0], [0, 0, 0, 0]],
          [''a'', ''a''])
   \<and> greedy_tokens example_decoder 5 2
        (init_hidden example_decoder [0, 0, 0, 1] [0, 0, 1, 0] (Some [0, 0, 0, 1])) =
       [3, 2, 3, 1, 1]
   \<and> index2token example_decoder 2 \<noteq> Some ''a''"
proof -
  have d: "distinct (map fst example_vocab)"
    by (simp add: example_vocab_def)
  have run: "predict example_decoder [0, 0, 0, 1] [0, 0, 1, 0] (Some [0, 0, 0, 1]) 5 =
     Inr ([[0, 0, 0, 1], [0, 0, 1, 0], [0, 0, 0, 1], [0, 1, 0, 0], [0, 0, 0, 0]],
          [''a'', ''a''])"
    by (simp add: predict_def example_simps eval_nat_numeral)
  have toks: "greedy_tokens example_decoder 5 2
        (init_hidden example_decoder [0, 0, 0, 1] [0, 0, 1, 0] (Some [0, 0, 0, 1])) =
       [3, 2, 3, 1, 1]"
    by (simp add: example_simps eval_nat_numeral)
  from predict_output_excludes_special_symbols [OF d example_decoder_def run]
  have "\<forall>s \<in> set [''a'', ''a'']. \<forall>t \<le> 2. index2token example_decoder t \<noteq> Some s"
    by blast
  then have "index2token example_decoder 2 \<noteq> Some ''a''" by simp
  with run toks show ?thesis by simp
qed

text \<open>
  C3. One expansion of a candidate: every child's cumulative score is the parent's
  score times the softmax probability of the child's symbol; a child that emits END
  (id 1) keeps the parent's output and gets the normalized score
  \<open>(score / ((5 + len) / 6)) * (surface_len / len)\<close> with \<open>len\<close> the parent's output
  length plus one; every other child gets \<open>score / ((5 + len) / 6)\<close> with \<open>len\<close> the
  length of its own output; a candidate whose output has reached \<open>surface_len + 2\<close>
  is skipped and has no children. When the search ends with a non-empty list of
  completed candidates, all of them emitted END and the prediction returned is that
  of one with the greatest normalized score.
\<close>

theorem beam_search_scores_and_selection:
  "(expand_states D surface_len beam_size [state] ([], []) = Inr (new_states, completed)
      \<longrightarrow>
      (\<forall>c \<in> set new_states. \<exists>ix < length (next_probs D state).
          ix \<noteq> 1 \<and> last_output c = ix
          \<and> score c = score state * next_probs D state ! ix
          \<and> normalized_score c = score c / ((5 + real (length (prediction c))) / 6))
      \<and> (\<forall>c \<in> set completed. 1 < length (next_probs D state)
          \<and> last_output c = 1 \<and> prediction c = prediction state
          \<and> score c = score state * next_probs D state ! 1
          \<and> normalized_score c =
               (score c / ((5 + (real (length (prediction state)) + 1)) / 6))
                 * (real_of_int surface_len / (real (length (prediction state)) + 1)))
      \<and> (surface_len + 2 \<le> int (length (prediction state))
            \<longrightarrow> new_states = [] \<and> completed = []))
   \<and> (surface_len + 2 \<le> int (length (prediction state)) \<longrightarrow>
        expand_states D surface_len beam_size (state # states) acc =
          expand_states D surface_len beam_size states acc)
   \<and> (beam_search D word_embedding context_vector surface_len transformer_context beam_size
          = Some (Inr completed_states) \<and> completed_states \<noteq> [] \<longrightarrow>
        (\<forall>c \<in> set completed_states. last_output c = 1)
        \<and> (\<exists>best \<in> set completed_states.
              predict_beam D word_embedding context_vector surface_len transformer_context
                beam_size = Some (Inr (prediction best))
              \<and> (\<forall>c \<in> set completed_states.
                    normalized_score c \<le> normalized_score best)))"
proof (intro conjI impI)
  assume run: "expand_states D surface_len beam_size [state] ([], []) = Inr (new_states, completed)"
  show "\<forall>c \<in> set new_states. \<exists>ix < length (next_probs D state).
          ix \<noteq> 1 \<and> last_output c = ix
          \<and> score c = score state * next_probs D state ! ix
          \<and> normalized_score c = score c / ((5 + real (length (prediction c))) / 6)"
  proof
    fix c assume c: "c \<in> set new_states"
    with run have nc: "\<not> surface_len + 2 \<le> int (length (prediction state))"
      by auto
    from expand_states_single [OF run nc] obtain tops where
      tops: "topk beam_size (next_probs D state) = Inr tops"
      and ch: "expand_children D surface_len state (next_hidden D state) tops ([], []) =
                 Inr (new_states, completed)"
      by blast
    from expand_children_appends [OF ch] c obtain ix p where
      ip: "(ix, p) \<in> set tops" "ix \<noteq> 1"
      and ns: "new_state D surface_len state (next_hidden D state) ix p = Inr c"
      by auto
    from topk_members [OF tops ip(1)] have "ix < length (next_probs D state)"
      and "p = next_probs D state ! ix" by auto
    with ip(2) new_state_fields [OF ns]
    show "\<exists>ix < length (next_probs D state).
          ix \<noteq> 1 \<and> last_output c = ix
          \<and> score c = score state * next_probs D state ! ix
          \<and> normalized_score c = score c / ((5 + real (length (prediction c))) / 6)"
      by auto
  qed
  show "\<forall>c \<in> set completed. 1 < length (next_probs D state)
          \<and> last_output c = 1 \<and> prediction c = prediction state
          \<and> score c = score state * next_probs D state ! 1
          \<and> normalized_score c =
               (score c / ((5 + (real (length (prediction state)) + 1)) / 6))
                 * (real_of_int surface_len / (real (length (prediction state)) + 1))"
  proof
    fix c assume c: "c \<in> set completed"
    with run have nc: "\<not> surface_len + 2 \<le> int (length (prediction state))"
      by auto
    from expand_states_single [OF run nc] obtain tops where
      tops: "topk beam_size (next_probs D state) = Inr tops"
      and ch: "expand_children D surface_len state (next_hidden D state) tops ([], []) =
                 Inr (new_states, completed)"
      by blast
    from expand_children_appends [OF ch] c obtain p where
      ip: "(1, p) \<in> set tops"
      and ns: "new_state D surface_len state (next_hidden D state) 1 p = Inr c"
      by auto
    from topk_members [OF tops ip] have "1 < length (next_probs D state)"
      and "p = next_probs D state ! 1" by auto
    with new_state_fields [OF ns]
    show "1 < length (next_probs D state)
          \<and> last_output c = 1 \<and> prediction c = prediction state
          \<and> score c = score state * next_probs D state ! 1
          \<and> normalized_score c =
               (score c / ((5 + (real (length (prediction state)) + 1)) / 6))
                 * (real_of_int surface_len / (real (length (prediction state)) + 1))"
      by simp
  qed
  assume "surface_len + 2 \<le> int (length (prediction state))"
  with run show "new_states = []" and "completed = []" by auto
next
  assume "surface_len + 2 \<le> int (length (prediction state))"
  then show "expand_states D surface_len beam_size (state # states) acc =
          expand_states D surface_len beam_size states acc"
    by (rule expand_states_capped)
next
  assume h: "beam_search D word_embedding context_vector surface_len transformer_context
      beam_size = Some (Inr completed_states) \<and> completed_states \<noteq> []"
  then have run: "beam_loop D surface_len beam_size
      [initial_state D word_embedding context_vector transformer_context] [] =
        Some (Inr completed_states)"
    by (simp add: beam_search_def)
  from beam_loop_completed [OF run]
  show "\<forall>c \<in> set completed_states. last_output c = 1" by simp
  from h obtain best rest where b: "best_first completed_states = best # rest"
    by (cases "best_first completed_states") (auto simp: best_first_Nil)
  with h have "predict_beam D word_embedding context_vector surface_len transformer_context
      beam_size = Some (Inr (prediction best))"
    by (simp add: predict_beam_def)
  with best_first_Cons [OF b]
  show "\<exists>best \<in> set completed_states.
      predict_beam D word_embedding context_vector surface_len transformer_context
        beam_size = Some (Inr (prediction best))
      \<and> (\<forall>c \<in> set completed_states. normalized_score c \<le> normalized_score best)"
    by blast
qed


theorem beam_search_scores_and_selection_witness:
  "expand_states example_decoder 1 2
      [initial_state example_decoder [0, 1, 0, 0] [0, 1/2, 0, 1/2] (Some [0, 1/4, 0, 3/4])]
      ([], []) =
     Inr ([\<lparr>prediction = ''a'', score = 3/4, normalized_score = 3/4, last_output = 3,
             hidden = [[0, 1/2, 0, 1/2], [0, 1, 0, 0]]\<rparr>],
          [\<lparr>prediction = '''', score = 1/4, normalized_score = 1/4, last_output = 1,
             hidden = [[0, 1/2, 0, 1/2], [0, 1, 0, 0]]\<rparr>])
   \<and> beam_search example_decoder [0, 1, 0, 0] [0, 1/2, 0, 1/2] 1 (Some [0, 1/4, 0, 3/4]) 2 =
       Some (Inr [\<lparr>prediction = '''', score = 1/4, normalized_score = 1/4, last_output = 1,
                    hidden = [[0, 1/2, 0, 1/2], [0, 1, 0, 0]]\<rparr>,
                  \<lparr>prediction = ''a'', score = 3/8, normalized_score = 9/56, last_output = 1,
                    hidden = [[0, 1, 0, 0]]\<rparr>,
                  \<lparr>prediction = ''aa'', score = 3/8, normalized_score = 3/32, last_output = 1,
                    hidden = []\<rparr>])
   \<and> predict_beam example_decoder [0, 1, 0, 0] [0, 1/2, 0, 1/2] 1 (Some [0, 1/4, 0, 3/4]) 2 =
       Some (Inr '''')"
proof -
  let ?c1 = "\<lparr>prediction = '''', score = 1/4, normalized_score = 1/4, last_output = 1,
                    hidden = [[0, 1/2, 0, 1/2], [0, 1, 0, 0::real]]\<rparr>"
  let ?c2 = "\<lparr>prediction = ''a'', score = 3/8, normalized_score = 9/56, last_output = 1,
                    hidden = [[0, 1, 0, 0::real]]\<rparr>"
  let ?c3 = "\<lparr>prediction = ''aa'', score = 3/8, normalized_score = 3/32, last_output = 1,
                    hidden = []\<rparr>"
  have e: "expand_states example_decoder 1 2
      [initial_state example_decoder [0, 1, 0, 0] [0, 1/2, 0, 1/2] (Some [0, 1/4, 0, 3/4])]
      ([], []) =
     Inr ([\<lparr>prediction = ''a'', score = 3/4, normalized_score = 3/4, last_output = 3,
             hidden = [[0, 1/2, 0, 1/2], [0, 1, 0, 0]]\<rparr>], [?c1])"
    by (simp add: example_simps example_beam_simps)
  have b: "beam_search example_decoder [0, 1, 0, 0] [0, 1/2, 0, 1/2] 1 (Some [0, 1/4, 0, 3/4]) 2 =
       Some (Inr [?c1, ?c2, ?c3])"
    by (simp add: example_simps example_beam_simps)
  have ne: "[?c1, ?c2, ?c3] \<noteq> []" by simp
  from beam_search_scores_and_selection
    [of example_decoder 1 2 _ _ _ _ _ "[0, 1, 0, 0]" "[0, 1/2, 0, 1/2]" "Some [0, 1/4, 0, 3/4]"
        "[?c1, ?c2, ?c3]"] b ne
  obtain best where best: "best \<in> set [?c1, ?c2, ?c3]"
    and p: "predict_beam example_decoder [0, 1, 0, 0] [0, 1/2, 0, 1/2] 1
        (Some [0, 1/4, 0, 3/4]) 2 = Some (Inr (prediction best))"
    and m: "\<forall>c \<in> set [?c1, ?c2, ?c3]. normalized_score c \<le> normalized_score best"
    by blast
  from best m have "best = ?c1" by auto
  with p e b show ?thesis by simp
qed


text \<open>
  C4. When the search ends with no completed candidate, the final selection indexes
  an empty list: predict\_beam raises IndexError and returns no string.
\<close>

theorem predict_beam_fails_without_completion:
  "beam_search D word_embedding context_vector surface_len transformer_context beam_size
     = Some (Inr []) \<Longrightarrow>
   predict_beam D word_embedding context_vector surface_len transformer_context beam_size
     = Some (Inl IndexError)
   \<and> (\<forall>s. predict_beam D word_embedding context_vector surface_len transformer_context
          beam_size \<noteq> Some (Inr s))"
  by (simp add: predict_beam_def best_first_def)

theorem predict_beam_fails_without_completion_witness:
  "beam_search example_decoder [0, 1, 0, 0] [0, 0, 0, 1] 0 (Some [0, 0, 0, 1]) 1 = Some (Inr [])
   \<and> predict_beam example_decoder [0, 1, 0, 0] [0, 0, 0, 1] 0 (Some [0, 0, 0, 1]) 1 =
       Some (Inl IndexError)"
proof -
  have b: "beam_search example_decoder [0, 1, 0, 0] [0, 0, 0, 1] 0 (Some [0, 0, 0, 1]) 1 =
      Some (Inr [])"
    by (simp add: example_simps example_beam_simps)
  from predict_beam_fails_without_completion [OF b] b show ?thesis by simp
qed

text \<open>
  C1, as amended. For beam width 1 and an order preserving softmax: whenever greedy
  decoding returns, its token stream reaches END within \<open>max_len\<close> steps, emits no PAD
  or START before it, and the joined greedy output is shorter than
  \<open>surface_len + 2\<close>, beam search returns exactly the joined greedy output.
\<close>

theorem beam_width_one_agrees_with_greedy:
  assumes "order_preserving (softmax D)"
    and "predict D word_embedding context_vector transformer_context max_len =
           Inr (scores, predictions)"
    and "1 \<in> set (greedy_tokens D max_len 2
           (init_hidden D word_embedding context_vector transformer_context))"
    and "\<forall>t \<in> set (takeWhile (\<lambda>t. t \<noteq> 1) (greedy_tokens D max_len 2
           (init_hidden D word_embedding context_vector transformer_context))). 2 < t"
    and "int (length (concat predictions)) < surface_len + 2"
  shows "predict_beam D word_embedding context_vector surface_len transformer_context 1 =
           Some (Inr (concat predictions))"
proof -
  let ?hid = "init_hidden D word_embedding context_vector transformer_context"
  let ?toks = "takeWhile (\<lambda>t. t \<noteq> 1) (greedy_tokens D max_len 2 ?hid)"
  from assms(2) have run: "predict_loop D max_len 0 2 ?hid
      (replicate max_len (replicate (vocab_size D) 0)) [] = Inr (scores, predictions)"
    by (simp add: predict_def)
  from assms(4) have all: "filter (\<lambda>t. 2 < t) ?toks = ?toks"
    by simp
  from predict_loop_tokens [OF run] all
  have eq: "predictions = map (the \<circ> index2token D) ?toks"
    by simp
  from predict_loop_lookups [OF run]
  have look: "\<forall>t \<in> set ?toks. index2token D t \<noteq> None"
    unfolding all .
  from assms(5) eq
  have len: "int (length ('''' @ concat (map (the \<circ> index2token D) ?toks))) < surface_len + 2"
    by simp
  from beam_loop_greedy [OF assms(1,3) look len, of 1 1]
  obtain c where "beam_loop D surface_len 1
      [\<lparr>prediction = '''', score = 1, normalized_score = 1, last_output = 2, hidden = ?hid\<rparr>] []
        = Some (Inr [c])"
    and "prediction c = concat (map (the \<circ> index2token D) ?toks)"
    by auto
  with eq show ?thesis
    by (simp add: predict_beam_def beam_search_def initial_state_def best_first_def)
qed


theorem beam_width_one_agrees_with_greedy_witness:
  "predict example_decoder [0, 1, 0, 0] [0, 0, 0, 1] (Some [0, 0, 0, 1]) 5 =
     Inr ([[0, 0, 0, 1], [0, 0, 0, 1], [0, 1, 0, 0], [0, 0, 0, 0], [0, 0, 0, 0]],
          [''a'', ''a''])
   \<and> predict_beam example_decoder [0, 1, 0, 0] [0, 0, 0, 1] 1 (Some [0, 0, 0, 1]) 1 =
       Some (Inr ''aa'')"
proof -
  have op: "order_preserving (softmax example_decoder)"
    by (simp add: example_decoder_def DecoderRNN_init_def order_preserving_id)
  have run: "predict example_decoder [0, 1, 0, 0] [0, 0, 0, 1] (Some [0, 0, 0, 1]) 5 =
     Inr ([[0, 0, 0, 1], [0, 0, 0, 1], [0, 1, 0, 0], [0, 0, 0, 0], [0, 0, 0, 0]],
          [''a'', ''a''])"
    by (simp add: predict_def example_simps eval_nat_numeral)
  have toks: "greedy_tokens example_decoder 5 2
        (init_hidden example_decoder [0, 1, 0, 0] [0, 0, 0, 1] (Some [0, 0, 0, 1])) =
       [3, 3, 1, 1, 1]"
    by (simp add: example_simps eval_nat_numeral)
  have one: "1 \<in> set (greedy_tokens example_decoder 5 2
        (init_hidden example_decoder [0, 1, 0, 0] [0, 0, 0, 1] (Some [0, 0, 0, 1])))"
    unfolding toks by simp
  have big: "\<forall>t \<in> set (takeWhile (\<lambda>t. t \<noteq> 1) (greedy_tokens example_decoder 5 2
        (init_hidden example_decoder [0, 1, 0, 0] [0, 0, 0, 1] (Some [0, 0, 0, 1])))). 2 < t"
    unfolding toks by simp
  have len: "int (length (concat [''a'', ''a''])) < 1 + 2" by simp
  from beam_width_one_agrees_with_greedy [OF op run one big len] run
  show ?thesis by simp
qed


text \<open>
  C1 as stated fails: the network below emits \<open>a, a, a, END\<close>. Greedy decoding
  returns \<open>aaa\<close>; beam search of width 1 for a surface of length 1 drops the only
  candidate when its output reaches length 3 and raises IndexError.
\<close>

theorem beam_width_one_differs_from_greedy_counterexample:
  "predict example_decoder [0, 0, 0, 1] [0, 0, 0, 1] (Some [0, 0, 0, 1]) 5 =
     Inr ([[0, 0, 0, 1], [0, 0, 0, 1], [0, 0, 0, 1], [0, 1, 0, 0], [0, 0, 0, 0]],
          [''a'', ''a'', ''a''])
   \<and> predict_beam example_decoder [0, 0, 0, 1] [0, 0, 0, 1] 1 (Some [0, 0, 0, 1]) 1 =
       Some (Inl IndexError)"
  by (simp add: predict_def predict_beam_def example_simps example_beam_simps eval_nat_numeral)


text \<open>
  Beam search also keeps the strings of PAD and START where greedy decoding skips
  them: here the network emits \<open>a, START, a, END\<close>.
\<close>

lemma beam_width_one_keeps_special_tokens:
  "predict example_decoder [0, 0, 0, 1] [0, 0, 1, 0] (Some [0, 0, 0, 1]) 5 =
     Inr ([[0, 0, 0, 1], [0, 0, 1, 0], [0, 0, 0, 1], [0, 1, 0, 0], [0, 0, 0, 0]],
          [''a'', ''a''])
   \<and> predict_beam example_decoder [0, 0, 0, 1] [0, 0, 1, 0] 9 (Some [0, 0, 0, 1]) 1 =
       Some (Inr ''a<s>a'')"
  by (simp add: predict_def predict_beam_def example_simps example_beam_simps eval_nat_numeral)

section \<open>Facts about feed-forward tag decoding\<close>

lemma sigmoid_gt_half: "(1 / 2 < sigmoid x) = (0 < x)"
proof -
  have pos: "0 < 1 + exp (- x)" by (simp add: add_pos_pos)
  have "(1 / 2 < sigmoid x) = (1 + exp (- x) < 2)"
    unfolding sigmoid_def using pos by (simp add: field_simps)
  also have "\<dots> = (exp (- x) < exp 0)" by simp
  also have "\<dots> = (0 < x)" by (simp only: exp_less_cancel_iff) simp
  finally show ?thesis .
qed

lemma sigmoid_gt_half_times: "(1 < sigmoid x * 2) = (0 < x)"
  using sigmoid_gt_half [of x] by simp

lemma collect_tags_set:
  "collect_tags F ix preds acc = Inr r \<Longrightarrow>
     set r = set acc \<union>
       {tag. \<exists>j < length preds. 2 < ix + j \<and> preds ! j \<and> ff_index2token F (ix + j) = Some tag}"
proof (induction preds arbitrary: ix acc)
  case Nil
  then show ?case by simp
next
  case (Cons pred preds)
  let ?S = "\<lambda>ix ps. {tag. \<exists>j < length ps. 2 < ix + j \<and> ps ! j \<and>
      ff_index2token F (ix + j) = Some tag}"
  have shift: "?S ix (pred # preds) =
      {tag. 2 < ix \<and> pred \<and> ff_index2token F ix = Some tag} \<union> ?S (Suc ix) preds"
  proof (intro set_eqI iffI)
    fix tag assume "tag \<in> ?S ix (pred # preds)"
    then obtain j where j: "j < Suc (length preds)" "2 < ix + j" "(pred # preds) ! j"
      "ff_index2token F (ix + j) = Some tag" by auto
    show "tag \<in> {tag. 2 < ix \<and> pred \<and> ff_index2token F ix = Some tag} \<union> ?S (Suc ix) preds"
    proof (cases j)
      case 0
      with j show ?thesis by simp
    next
      case (Suc k)
      with j have "k < length preds \<and> 2 < Suc ix + k \<and> preds ! k \<and>
          ff_index2token F (Suc ix + k) = Some tag" by simp
      then show ?thesis by blast
    qed
  next
    fix tag
    assume "tag \<in> {tag. 2 < ix \<and> pred \<and> ff_index2token F ix = Some tag} \<union> ?S (Suc ix) preds"
    then consider "2 < ix \<and> pred \<and> ff_index2token F ix = Some tag"
      | k where "k < length preds" "2 < Suc ix + k" "preds ! k"
          "ff_index2token F (Suc ix + k) = Some tag"
      by auto
    then show "tag \<in> ?S ix (pred # preds)"
    proof cases
      case 1
      then have "0 < length (pred # preds) \<and> 2 < ix + 0 \<and> (pred # preds) ! 0 \<and>
          ff_index2token F (ix + 0) = Some tag" by simp
      then show ?thesis by blast
    next
      case 2
      then have "Suc k < length (pred # preds) \<and> 2 < ix + Suc k \<and> (pred # preds) ! Suc k \<and>
          ff_index2token F (ix + Suc k) = Some tag" by simp
      then show ?thesis by blast
    qed
  qed
  show ?case
  proof (cases "2 < ix \<and> pred")
    case True
    with Cons.prems obtain tok where tok: "ff_index2token F ix = Some tok"
      and run: "collect_tags F (Suc ix) preds (acc @ [tok]) = Inr r"
      by (auto split: option.splits)
    from Cons.IH [OF run] have "set r = set (acc @ [tok]) \<union> ?S (Suc ix) preds" .
    with True tok shift show ?thesis by auto
  next
    case False
    with Cons.prems have run: "collect_tags F (Suc ix) preds acc = Inr r"
      by auto
    from Cons.IH [OF run] have "set r = set acc \<union> ?S (Suc ix) preds" .
    with False shift show ?thesis by auto
  qed
qed

lemma inverse_vocab_permuted:
  assumes "set voc' = set voc" and "distinct (map snd voc)" and "distinct (map snd voc')"
  shows "inverse_vocab voc' = inverse_vocab voc"
proof -
  let ?sw = "\<lambda>v. rev (map (\<lambda>(k, v). (v, k)) v) :: (nat \<times> string) list"
  have f: "map fst (?sw voc) = rev (map snd voc)" "map fst (?sw voc') = rev (map snd voc')"
    by (simp_all add: rev_map case_prod_unfold comp_def)
  have "set (?sw voc') = set (?sw voc)"
    using assms(1) by auto
  moreover have "distinct (map fst (?sw voc))" "distinct (map fst (?sw voc'))"
    using assms(2,3) unfolding f by simp_all
  ultimately have "map_of (?sw voc') = map_of (?sw voc)"
    by (simp add: map_of_inject_set)
  then show ?thesis by (simp add: inverse_vocab_def)
qed

lemma collect_tags_cong:
  "ff_index2token G = ff_index2token H \<Longrightarrow>
     collect_tags G ix ps acc = collect_tags H ix ps acc"
  by (induction ps arbitrary: ix acc) (simp_all split: option.splits)


lemmas example_tagger_simps = example_tagger_def example_tag_vocab_def DecoderFF_init_def
  DecoderFF_predict_def DecoderFF_scores_def relu_def inverse_vocab_def sigmoid_gt_half sigmoid_gt_half_times

section \<open>Claims about DecoderFF\<close>

lemma DecoderFF_scores_logits:
  assumes "F = DecoderFF_init hsize voc w cls"
    and "hid = (case transformer_context of
                  Some tc \<Rightarrow> map (max 0) tc @ map (max 0) (w context_vector)
                | None \<Rightarrow> map (max 0) (w context_vector) @ word_embedding)"
    and "logits = cls (map (max 0) (w hid))"
  shows "DecoderFF_scores F word_embedding context_vector transformer_context =
           map sigmoid logits"
  using assms
  by (simp add: DecoderFF_scores_def DecoderFF_init_def relu_def Let_def split: option.splits)

text \<open>
  C8. The logits of feed-forward tag decoding are the classifier applied to the
  rectified projection of the rectified transformer context joined with the rectified
  projected context vector (of the latter joined with the word embedding when there is
  no transformer context). Whenever decoding returns, a tag is in its output exactly
  when it is the \<open>index2token\<close> entry of an index above 2 whose sigmoid score
  \<open>1 / (1 + exp (- logit))\<close> exceeds 0.5, which is exactly when its logit is positive;
  no returned tag is the PAD, END or START symbol of the vocabulary; and a decoder with
  the same weights whose vocabulary has the same entries in any other order (ids
  distinct) returns the same output on the same inputs.
\<close>

theorem DecoderFF_predict_tag_set:
  assumes "distinct (map fst voc)"
    and "F = DecoderFF_init hsize voc w cls"
    and "hid = (case transformer_context of
                  Some tc \<Rightarrow> map (max 0) tc @ map (max 0) (w context_vector)
                | None \<Rightarrow> map (max 0) (w context_vector) @ word_embedding)"
    and "logits = cls (map (max 0) (w hid))"
    and "DecoderFF_predict F word_embedding context_vector transformer_context = Inr predictions"
  shows "(\<forall>tag. tag \<in> set predictions \<longleftrightarrow>
            (\<exists>ix. 2 < ix \<and> ix < length logits \<and> ff_index2token F ix = Some tag
               \<and> 1 / 2 < 1 / (1 + exp (- (logits ! ix)))))
         \<and> (\<forall>tag. tag \<in> set predictions \<longleftrightarrow>
            (\<exists>ix. 2 < ix \<and> ix < length logits \<and> ff_index2token F ix = Some tag
               \<and> 0 < logits ! ix))
         \<and> (\<forall>tag \<in> set predictions. \<forall>ix \<le> 2. ff_index2token F ix \<noteq> Some tag)
         \<and> (\<forall>voc'. set voc' = set voc \<and> distinct (map snd voc) \<and> distinct (map snd voc') \<longrightarrow>
               DecoderFF_predict (DecoderFF_init hsize voc' w cls) word_embedding context_vector
                 transformer_context = Inr predictions)"
proof -
  let ?scores = "DecoderFF_scores F word_embedding context_vector transformer_context"
  have sc: "?scores = map sigmoid logits"
    using assms(2-4) by (rule DecoderFF_scores_logits)
  from assms(5) have run: "collect_tags F 0 (map (\<lambda>s. s > 1 / 2) ?scores) [] = Inr predictions"
    by (simp add: DecoderFF_predict_def)
  have pos: "\<forall>tag. tag \<in> set predictions \<longleftrightarrow>
            (\<exists>ix. 2 < ix \<and> ix < length logits \<and> ff_index2token F ix = Some tag
               \<and> 0 < logits ! ix)"
  proof
    fix tag
    from collect_tags_set [OF run]
    have "tag \<in> set predictions \<longleftrightarrow>
        (\<exists>j < length (map (\<lambda>s. s > 1 / 2) ?scores). 2 < 0 + j
           \<and> map (\<lambda>s. s > 1 / 2) ?scores ! j \<and> ff_index2token F (0 + j) = Some tag)"
      by simp
    also have "\<dots> \<longleftrightarrow> (\<exists>j < length logits. 2 < j \<and> 0 < logits ! j
          \<and> ff_index2token F j = Some tag)"
      unfolding sc by (simp add: sigmoid_gt_half sigmoid_gt_half_times cong: conj_cong)
    also have "\<dots> \<longleftrightarrow> (\<exists>ix. 2 < ix \<and> ix < length logits
        \<and> ff_index2token F ix = Some tag \<and> 0 < logits ! ix)"
      by blast
    finally show "tag \<in> set predictions \<longleftrightarrow>
        (\<exists>ix. 2 < ix \<and> ix < length logits \<and> ff_index2token F ix = Some tag
           \<and> 0 < logits ! ix)" .
  qed
  have half: "(1 / 2 < 1 / (1 + exp (- x))) = (0 < x)" for x :: real
    using sigmoid_gt_half [of x] by (simp only: sigmoid_def)
  have thr: "\<forall>tag. tag \<in> set predictions \<longleftrightarrow>
            (\<exists>ix. 2 < ix \<and> ix < length logits \<and> ff_index2token F ix = Some tag
               \<and> 1 / 2 < 1 / (1 + exp (- (logits ! ix))))"
    unfolding half using pos .
  have spec: "\<forall>tag \<in> set predictions. \<forall>ix \<le> 2. ff_index2token F ix \<noteq> Some tag"
  proof (intro ballI allI impI)
    fix tag ix
    assume t: "tag \<in> set predictions" and ix: "ix \<le> (2::nat)"
    from pos t obtain ix' where ix': "2 < ix'" "ff_index2token F ix' = Some tag" by blast
    show "ff_index2token F ix \<noteq> Some tag"
    proof
      assume "ff_index2token F ix = Some tag"
      with ix' assms(2) have "(tag, ix) \<in> set voc" "(tag, ix') \<in> set voc"
        by (auto simp: DecoderFF_init_def dest: inverse_vocab_SomeD)
      with assms(1) have "ix = ix'" by (meson eq_key_imp_eq_value)
      with ix ix' show False by simp
    qed
  qed
  have perm: "\<forall>voc'. set voc' = set voc \<and> distinct (map snd voc) \<and> distinct (map snd voc') \<longrightarrow>
               DecoderFF_predict (DecoderFF_init hsize voc' w cls) word_embedding context_vector
                 transformer_context = Inr predictions"
  proof (intro allI impI)
    fix voc'
    assume h: "set voc' = set voc \<and> distinct (map snd voc) \<and> distinct (map snd voc')"
    then have iv: "inverse_vocab voc' = inverse_vocab voc"
      by (intro inverse_vocab_permuted) simp_all
    have sc': "DecoderFF_scores (DecoderFF_init hsize voc' w cls) word_embedding context_vector
        transformer_context = ?scores"
      using assms(2) by (simp add: DecoderFF_scores_def DecoderFF_init_def)
    have "ff_index2token (DecoderFF_init hsize voc' w cls) = ff_index2token F"
      using assms(2) iv by (simp add: DecoderFF_init_def)
    from collect_tags_cong [OF this] sc' run
    show "DecoderFF_predict (DecoderFF_init hsize voc' w cls) word_embedding context_vector
        transformer_context = Inr predictions"
      by (simp add: DecoderFF_predict_def)
  qed
  from thr pos spec perm show ?thesis by (intro conjI)
qed

theorem DecoderFF_predict_tag_set_witness:
  "DecoderFF_predict example_tagger [3, 1] [- 1, 2, 0] None = Inr [''N'', ''SG'']
   \<and> (\<exists>ix. 2 < ix \<and> ix < length [0, 2, 0, 3, 1 :: real]
          \<and> ff_index2token example_tagger ix = Some ''SG''
          \<and> 1 / 2 < 1 / (1 + exp (- ([0, 2, 0, 3, 1 :: real] ! ix))))
   \<and> ff_index2token example_tagger 1 = Some ''<e>'' \<and> 0 < [0, 2, 0, 3, 1 :: real] ! 1
   \<and> ''<e>'' \<notin> set [''N'', ''SG'']
   \<and> ff_index2token example_tagger 2 \<noteq> Some ''N''
   \<and> DecoderFF_predict (DecoderFF_init 2 (rev example_tag_vocab) (\<lambda>v. v) (\<lambda>v. v))
        [3, 1] [- 1, 2, 0] None = Inr [''N'', ''SG'']"
proof -
  have d: "distinct (map fst example_tag_vocab)"
    by (simp add: example_tag_vocab_def)
  have h: "[0, 2, 0, 3, 1 :: real] =
      (case None of
         Some tc \<Rightarrow> map (max 0) tc @ map (max 0) ((\<lambda>v. v) [- 1, 2, 0])
       | None \<Rightarrow> map (max 0) ((\<lambda>v. v) [- 1, 2, 0]) @ [3, 1])"
    by simp
  have l: "[0, 2, 0, 3, 1 :: real] = (\<lambda>v. v) (map (max 0) ((\<lambda>v. v) [0, 2, 0, 3, 1]))"
    by simp
  have run: "DecoderFF_predict example_tagger [3, 1] [- 1, 2, 0] None = Inr [''N'', ''SG'']"
    by (simp add: example_tagger_simps)
  have p: "set (rev example_tag_vocab) = set example_tag_vocab
      \<and> distinct (map snd example_tag_vocab) \<and> distinct (map snd (rev example_tag_vocab))"
    by (intro conjI set_rev) (simp_all add: example_tag_vocab_def)
  from DecoderFF_predict_tag_set [OF d example_tagger_def h l run]
  have a: "\<forall>tag. tag \<in> set [''N'', ''SG''] \<longleftrightarrow>
            (\<exists>ix. 2 < ix \<and> ix < length [0, 2, 0, 3, 1 :: real]
               \<and> ff_index2token example_tagger ix = Some tag
               \<and> 1 / 2 < 1 / (1 + exp (- ([0, 2, 0, 3, 1 :: real] ! ix))))"
    and b: "\<forall>tag \<in> set [''N'', ''SG'']. \<forall>ix \<le> 2. ff_index2token example_tagger ix \<noteq> Some tag"
    and c: "\<forall>voc'. set voc' = set example_tag_vocab \<and> distinct (map snd example_tag_vocab)
          \<and> distinct (map snd voc') \<longrightarrow>
        DecoderFF_predict (DecoderFF_init 2 voc' (\<lambda>v. v) (\<lambda>v. v)) [3, 1] [- 1, 2, 0] None =
          Inr [''N'', ''SG'']"
    by blast+
  have sg: "''SG'' \<in> set [''N'', ''SG'']" by simp
  have 1: "\<exists>ix. 2 < ix \<and> ix < length [0, 2, 0, 3, 1 :: real]
          \<and> ff_index2token example_tagger ix = Some ''SG''
          \<and> 1 / 2 < 1 / (1 + exp (- ([0, 2, 0, 3, 1 :: real] ! ix)))"
    using a [rule_format, of "''SG''"] sg by (rule iffD1)
  from b have 2: "ff_index2token example_tagger 2 \<noteq> Some ''N''" by simp
  from c p
  have 3: "DecoderFF_predict (DecoderFF_init 2 (rev example_tag_vocab) (\<lambda>v. v) (\<lambda>v. v))
        [3, 1] [- 1, 2, 0] None = Inr [''N'', ''SG'']"
    by blast
  have 4: "ff_index2token example_tagger 1 = Some ''<e>'' \<and> 0 < [0, 2, 0, 3, 1 :: real] ! 1
      \<and> ''<e>'' \<notin> set [''N'', ''SG'']"
    by (simp add: example_tagger_def example_tag_vocab_def DecoderFF_init_def inverse_vocab_def)
  from run 1 2 3 4 show ?thesis by (intro conjI) simp_all
qed

section \<open>Facts about predict\_sentence\<close>


lemma mapE_nth: "mapE f xs = Inr ys \<Longrightarrow> i < length xs \<Longrightarrow> f (xs ! i) = Inr (ys ! i)"
proof (induction xs arbitrary: ys i)
  case Nil
  then show ?case by simp
next
  case (Cons x xs)
  then show ?case
    by (cases i) (auto split: sum.splits)
qed











lemma predict_sentence_transformer_disabled:
  "surface_words \<noteq> [] \<Longrightarrow>
     predict_sentence ext surface_words encoder decoder_lemma decoder_morph_tags dataset
       False use_char_lstm transformer_model_name tokenizer use_rnn_morph
       max_morph_features_len surface2lemma \<noteq> Inr text"
  by (simp add: predict_sentence_def Let_def bindE_def split: sum.splits)


















section \<open>Claims about predict\_sentence\<close>

text \<open>
  C9. For the empty sentence predict\_sentence returns the empty string, whatever the
  encoder, the decoders, the dataset, the flags and the dictionary are: the test of
  line 50 comes before every other step.
\<close>

theorem predict_sentence_empty_sentence:
  "predict_sentence ext [] encoder decoder_lemma decoder_morph_tags dataset
     use_transformer use_char_lstm transformer_model_name tokenizer use_rnn_morph
     max_morph_features_len surface2lemma = Inr ''''"
  by (simp add: predict_sentence_def)

theorem predict_sentence_empty_sentence_witness:
  "predict_sentence example_externals [] example_encoder (LemmaDecoderRNN example_decoder)
     (MorphDecoderFF example_tagger) example_dataset False True ''bert'' None False 10 None =
     Inr ''''
   \<and> predict_sentence example_externals [''dog''] example_encoder
       (LemmaDecoderRNN example_decoder) (MorphDecoderFF example_tagger) example_dataset
       False True ''bert'' None False 10 None = Inl AttributeError"
proof -
  have "predict_sentence example_externals [''dog''] example_encoder
       (LemmaDecoderRNN example_decoder) (MorphDecoderFF example_tagger) example_dataset
       False True ''bert'' None False 10 None = Inl AttributeError"
    by (simp add: predict_sentence_def Let_def encode_surfaces_def encode_def bindE_def
        example_dataset_def EOS_token_def)
  with predict_sentence_empty_sentence
    [of example_externals example_encoder "LemmaDecoderRNN example_decoder"
        "MorphDecoderFF example_tagger" example_dataset False True "''bert''" None False 10 None]
  show ?thesis by simp
qed







end
